theory Spec2Isabelle
  imports Main "HOL-Library.Word"
begin

section \<open>The irrigation controller \<open>pump_control.obj.ino\<close>\<close>

text \<open>
  A shallow embedding of \<open>src/ESP32/pump_control.obj/pump_control.obj.ino\<close>: the
  sensor filter \<open>getSmoothedTouch\<close>, the pump primitive \<open>runPump\<close>, \<open>setup\<close> with
  its calibration procedure, and one iteration of \<open>loop\<close>.

  The sketch is a single thread that mutates module-level variables and talks to
  the board through the Arduino core. The model passes one record, \<open>world\<close>,
  through every function. It holds the sketch's global variables, the
  \<open>Preferences\<close> object with the contents of its flash namespace, the inputs the
  board will deliver (touch samples, button levels) and the list of calls made to
  the outside world (\<open>trace\<close>), oldest first.
\<close>

subsection \<open>Calls to the board, as events\<close>

datatype serial_text = Str string | Num int

datatype pin_mode = INPUT | OUTPUT

datatype event =
    SerialBegin nat
  | SerialPrint serial_text
  | SerialPrintln serial_text
  | LedcAttach nat nat nat
  | LedcWrite nat nat
  | PinMode nat pin_mode
  | DigitalWrite nat bool
  | Delay nat
  | DelayMicroseconds nat
  | PrefsBegin string bool bool
  | PrefsEnd
  | PrefsPutInt string "32 word" nat
  | PrefsPutUInt string "32 word" nat

datatype error = DivideByZero

subsection \<open>The state\<close>

record preferences =
  started :: bool
  readOnly :: bool

text \<open>
  The first five fields are the sketch's globals (lines 25 to 29).
  \<open>overflow_protect\<close> is a C \<open>int\<close>; it is only ever incremented in the branch
  where it is at most 5, so the increment never leaves the range of a 32-bit
  \<open>int\<close> and the model uses \<open>int\<close> for it. The other four have the widths the
  source declares and wrap like the source's.

  \<open>nvs\<close> is the contents of the flash namespace \<open>"prefs"\<close>, \<open>nvs_available\<close> says
  whether the medium can be opened. \<open>touch_in\<close> and \<open>button_in\<close> are what
  \<open>touchRead\<close> and \<open>digitalRead\<close> will return, call after call; \<open>touch_pos\<close> and
  \<open>button_pos\<close> count the calls made so far. \<open>ledc_ok\<close> is the answer of
  \<open>ledcAttach\<close>.
\<close>

record world =
  overflow_protect :: int
  emptyCapacitiveValue :: "16 word"
  fullCapacitiveValue :: "16 word"
  totalPumpsSincePowerUp :: "32 word"
  totalPumpsSinceCalibration :: "32 word"
  prefs :: preferences
  nvs :: "string \<rightharpoonup> 32 word"
  nvs_available :: bool
  touch_in :: "nat \<Rightarrow> 16 word"
  touch_pos :: nat
  button_in :: "nat \<Rightarrow> bool"
  button_pos :: nat
  ledc_ok :: bool
  trace :: "event list"

subsection \<open>Constants of the sketch (lines 7 to 22)\<close>

definition ns :: string where "ns = ''prefs''"
definition capKey :: string where "capKey = ''capValue''"
definition pumpKey :: string where "pumpKey = ''totalPump''"

definition pumpPin :: nat where "pumpPin = 23"
definition EN_PIN :: nat where "EN_PIN = 18"
definition BUTTON_HIGH :: nat where "BUTTON_HIGH = 27"
definition BUTTON_IN :: nat where "BUTTON_IN = 33"
definition LED_BUILTIN :: nat where "LED_BUILTIN = 2"

text \<open>
  \<open>T0\<close> is the board's name for its first touch channel; the ESP32 core maps it to
  GPIO 4. Only this one channel is ever read, so nothing below depends on the
  number.
\<close>

definition TOUCH_PIN :: "8 word" where "TOUCH_PIN = 4"

definition freq :: nat where "freq = 50"
definition resolution :: nat where "resolution = 8"
definition dutyCycle :: nat where "dutyCycle = 125"

subsection \<open>The Arduino core\<close>

text \<open>
  The functions of the Arduino core lie outside the repository. An output call is
  the event it appends to the trace; \<open>touchRead\<close> and \<open>digitalRead\<close> hand out the
  next value of their input and move on.
\<close>

definition emit :: "event \<Rightarrow> world \<Rightarrow> world" where
  "emit e s = s\<lparr>trace := trace s @ [e]\<rparr>"

text \<open>\<open>delay\<close> takes an \<open>uint32_t\<close>; the sketch passes \<open>int\<close>s, which convert modulo \<open>2^32\<close>.\<close>

definition delay :: "int \<Rightarrow> world \<Rightarrow> world" where
  "delay ms s = emit (Delay (nat (ms mod 2 ^ 32))) s"

definition delayMicroseconds :: "16 word \<Rightarrow> world \<Rightarrow> world" where
  "delayMicroseconds us s = emit (DelayMicroseconds (unat us)) s"

definition touchRead :: "8 word \<Rightarrow> world \<Rightarrow> 16 word \<times> world" where
  "touchRead pin s = (touch_in s (touch_pos s), s\<lparr>touch_pos := Suc (touch_pos s)\<rparr>)"

definition digitalRead :: "nat \<Rightarrow> world \<Rightarrow> int \<times> world" where
  "digitalRead pin s =
     ((if button_in s (button_pos s) then 1 else 0), s\<lparr>button_pos := Suc (button_pos s)\<rparr>)"

definition digitalWrite :: "nat \<Rightarrow> bool \<Rightarrow> world \<Rightarrow> world" where
  "digitalWrite pin level s = emit (DigitalWrite pin level) s"

definition pinMode :: "nat \<Rightarrow> pin_mode \<Rightarrow> world \<Rightarrow> world" where
  "pinMode pin m s = emit (PinMode pin m) s"

definition ledcWrite :: "nat \<Rightarrow> nat \<Rightarrow> world \<Rightarrow> world" where
  "ledcWrite pin duty s = emit (LedcWrite pin duty) s"

definition ledcAttach :: "nat \<Rightarrow> nat \<Rightarrow> nat \<Rightarrow> world \<Rightarrow> bool \<times> world" where
  "ledcAttach pin f r s = (ledc_ok s, emit (LedcAttach pin f r) s)"

definition serial_begin :: "nat \<Rightarrow> world \<Rightarrow> world" where
  "serial_begin baud s = emit (SerialBegin baud) s"

definition serial_print :: "serial_text \<Rightarrow> world \<Rightarrow> world" where
  "serial_print t s = emit (SerialPrint t) s"

definition serial_println :: "serial_text \<Rightarrow> world \<Rightarrow> world" where
  "serial_println t s = emit (SerialPrintln t) s"

subsection \<open>The persistent store\<close>

text \<open>
  Modelled from the spec: the \<open>Preferences\<close> class is the board library's, not
  the repository's. Section 4.2 of the specification gives its contract: a
  namespaced key-value store, opened for a bounded scope and then closed, with
  \<open>getInt(key, default)\<close>, \<open>putInt(key, value)\<close> and their unsigned
  counterparts; when the medium is unavailable nothing is loaded and nothing is
  persisted. A \<open>put\<close> on a store that is not open, or open read-only, writes
  nothing and reports 0 bytes; a \<open>get\<close> on a store that is not open, or of an
  absent key, yields the default. A completed write is in \<open>nvs\<close> from the moment
  of the \<open>put\<close>, hence before the store is closed.
\<close>

definition prefs_begin :: "string \<Rightarrow> bool \<Rightarrow> world \<Rightarrow> world" where
  "prefs_begin name ro s =
     (if started (prefs s) then emit (PrefsBegin name ro False) s
      else if nvs_available s
        then emit (PrefsBegin name ro True) (s\<lparr>prefs := \<lparr>started = True, readOnly = ro\<rparr>\<rparr>)
        else emit (PrefsBegin name ro False) s)"

definition prefs_end :: "world \<Rightarrow> world" where
  "prefs_end s =
     (if started (prefs s)
      then emit PrefsEnd (s\<lparr>prefs := (prefs s)\<lparr>started := False\<rparr>\<rparr>)
      else emit PrefsEnd s)"

definition prefs_getInt :: "string \<Rightarrow> 32 word \<Rightarrow> world \<Rightarrow> 32 word" where
  "prefs_getInt key dflt s =
     (if \<not> started (prefs s) then dflt
      else case nvs s key of None \<Rightarrow> dflt | Some v \<Rightarrow> v)"

definition prefs_getUInt :: "string \<Rightarrow> 32 word \<Rightarrow> world \<Rightarrow> 32 word" where
  "prefs_getUInt key dflt s =
     (if \<not> started (prefs s) then dflt
      else case nvs s key of None \<Rightarrow> dflt | Some v \<Rightarrow> v)"

definition prefs_putInt :: "string \<Rightarrow> 32 word \<Rightarrow> world \<Rightarrow> world" where
  "prefs_putInt key v s =
     (if \<not> started (prefs s) \<or> readOnly (prefs s) then emit (PrefsPutInt key v 0) s
      else emit (PrefsPutInt key v 4) (s\<lparr>nvs := (nvs s)(key \<mapsto> v)\<rparr>))"

definition prefs_putUInt :: "string \<Rightarrow> 32 word \<Rightarrow> world \<Rightarrow> world" where
  "prefs_putUInt key v s =
     (if \<not> started (prefs s) \<or> readOnly (prefs s) then emit (PrefsPutUInt key v 0) s
      else emit (PrefsPutUInt key v 4) (s\<lparr>nvs := (nvs s)(key \<mapsto> v)\<rparr>))"

subsection \<open>\<open>getSmoothedTouch\<close> (lines 39 to 46)\<close>

text \<open>
  The \<open>for\<close> loop, with the loop variable \<open>i\<close> and the accumulator \<open>sum\<close> (here
  \<open>acc\<close>) as arguments. \<open>i\<close> and \<open>samples\<close> are \<open>uint16_t\<close>, \<open>sum\<close> is \<open>uint32_t\<close> and
  \<open>sum += touchRead(..)\<close> widens the 16-bit sample.
\<close>

function touch_sum ::
  "8 word \<Rightarrow> 16 word \<Rightarrow> 16 word \<Rightarrow> 16 word \<Rightarrow> 32 word \<Rightarrow> world \<Rightarrow> 32 word \<times> world" where
  "touch_sum touchPin samples delayMicros i acc s =
     (if i < samples
      then (case touchRead touchPin s of (r, s1) \<Rightarrow>
              touch_sum touchPin samples delayMicros (i + 1) (acc + ucast r)
                (delayMicroseconds delayMicros s1))
      else (acc, s))"
  by pat_completeness auto
termination
proof (relation "measure (\<lambda>(touchPin, samples, delayMicros, i, acc, s). unat samples - unat i)")
  show "wf (measure (\<lambda>(touchPin, samples, delayMicros, i, acc, s). unat samples - unat i))"
    by simp
next
  fix touchPin :: "8 word" and samples delayMicros i :: "16 word" and acc :: "32 word"
    and s :: world and x :: "16 word \<times> world" and r :: "16 word" and s1 :: world
  assume less: "i < samples"
  then have lt: "unat i < unat samples"
    by (simp add: word_less_nat_alt)
  have "unat samples < 2 ^ 16"
    using unsigned_less [of samples] by simp
  with lt have "unat i + unat (1 :: 16 word) < 2 ^ LENGTH(16)"
    by simp
  then have "unat (i + 1) = unat i + unat (1 :: 16 word)"
    by (simp only: unat_add_lem)
  with lt have "unat samples - unat (i + 1) < unat samples - unat i"
    by simp
  then show "((touchPin, samples, delayMicros, i + 1, acc + ucast r,
      delayMicroseconds delayMicros s1), (touchPin, samples, delayMicros, i, acc, s))
    \<in> measure (\<lambda>(touchPin, samples, delayMicros, i, acc, s). unat samples - unat i)"
    by simp
qed

declare touch_sum.simps [simp del]

text \<open>
  \<open>sum / samples\<close> is an unsigned 32-bit division; the quotient is cut to the
  \<open>uint16_t\<close> return type. When \<open>samples\<close> is 0 the loop body never runs and the
  division has divisor 0, which the processor answers with an exception: the
  model returns \<open>Inl DivideByZero\<close>.
\<close>

definition getSmoothedTouch ::
  "8 word \<Rightarrow> 16 word \<Rightarrow> 16 word \<Rightarrow> world \<Rightarrow> error + (16 word \<times> world)" where
  "getSmoothedTouch touchPin samples delayMicros s =
     (case touch_sum touchPin samples delayMicros 0 0 s of (acc, s1) \<Rightarrow>
        if (ucast samples :: 32 word) = 0 then Inl DivideByZero
        else Inr (ucast (acc div ucast samples), s1))"

subsection \<open>\<open>blinkLED\<close> (lines 48 to 55)\<close>

fun blink_loop :: "nat \<Rightarrow> int \<Rightarrow> int \<Rightarrow> world \<Rightarrow> world" where
  "blink_loop 0 onTime offTime s = s"
| "blink_loop (Suc k) onTime offTime s =
     blink_loop k onTime offTime
       (delay offTime (digitalWrite LED_BUILTIN False
         (delay onTime (digitalWrite LED_BUILTIN True s))))"

text \<open>The \<open>int\<close> parameter \<open>times\<close> is \<open>times_n\<close> here; a count below 1 blinks not at all.\<close>

definition blinkLED :: "int \<Rightarrow> int \<Rightarrow> int \<Rightarrow> world \<Rightarrow> world" where
  "blinkLED times_n onTime offTime s = blink_loop (nat times_n) onTime offTime s"

subsection \<open>\<open>runPump\<close> (lines 61 to 81)\<close>

definition runPump :: "int \<Rightarrow> world \<Rightarrow> world" where
  "runPump durationMs s =
     (let s1 = prefs_begin ns False s;
          s2 = ledcWrite pumpPin dutyCycle s1;
          s3 = serial_println (Str ''Pump on'') s2;
          s4 = delay durationMs s3;
          s5 = ledcWrite pumpPin 0 s4;
          s6 = serial_println (Str ''Pump off'') s5;
          s7 = s6\<lparr>totalPumpsSincePowerUp := totalPumpsSincePowerUp s6 + 1\<rparr>;
          s8 = s7\<lparr>totalPumpsSinceCalibration := totalPumpsSinceCalibration s7 + 1\<rparr>;
          s9 = prefs_putUInt pumpKey (totalPumpsSinceCalibration s8) s8
      in prefs_end s9)"

subsection \<open>\<open>setup\<close> (lines 83 to 172)\<close>

text \<open>
  \<open>setup\<close> is one C function; it is cut here at its own comment lines into the
  blocks it runs one after the other. The values of the module-level variables at
  power-up (lines 25 to 29) are those of \<open>boot\<close>.
\<close>

definition boot ::
  "(string \<rightharpoonup> 32 word) \<Rightarrow> bool \<Rightarrow> (nat \<Rightarrow> 16 word) \<Rightarrow> (nat \<Rightarrow> bool) \<Rightarrow> bool \<Rightarrow> world" where
  "boot flash medium_ok touch button ledc =
     \<lparr>overflow_protect = 0,
      emptyCapacitiveValue = 0,
      fullCapacitiveValue = 45,
      totalPumpsSincePowerUp = 0,
      totalPumpsSinceCalibration = 0,
      prefs = \<lparr>started = False, readOnly = False\<rparr>,
      nvs = flash,
      nvs_available = medium_ok,
      touch_in = touch,
      touch_pos = 0,
      button_in = button,
      button_pos = 0,
      ledc_ok = ledc,
      trace = []\<rparr>"

text \<open>Lines 84 to 103: serial port, PWM channel, pins.\<close>

definition setup_io :: "world \<Rightarrow> world" where
  "setup_io s =
     (let s1 = serial_begin 115200 s in
      case ledcAttach pumpPin freq resolution s1 of (ok, s2) \<Rightarrow>
      let s3 = (if ok then serial_println (Str ''LEDC successfully configured!'') s2
                else serial_println (Str ''Error in LEDC configuration!'') s2);
          s4 = pinMode EN_PIN OUTPUT s3;
          s5 = pinMode BUTTON_HIGH OUTPUT s4;
          s6 = pinMode BUTTON_IN INPUT s5;
          s7 = pinMode LED_BUILTIN OUTPUT s6;
          s8 = digitalWrite EN_PIN True s7;
          s9 = digitalWrite BUTTON_HIGH True s8
      in digitalWrite BUTTON_IN False s9)"

text \<open>Lines 105 to 113: load the pump counter.\<close>

definition load_pump_counter :: "world \<Rightarrow> world" where
  "load_pump_counter s =
     (let s1 = prefs_begin ns False s;
          s2 = delay 1000 s1;
          s3 = s2\<lparr>totalPumpsSinceCalibration := prefs_getUInt pumpKey 0 s2\<rparr>;
          s4 = prefs_end s3;
          s5 = serial_print (Str ''Total pumps since last calibration: '') s4
      in serial_println (Num (uint (totalPumpsSinceCalibration s5))) s5)"

text \<open>
  Lines 115 to 128: load the threshold or store the default. The local
  \<open>prefCalibrationValue\<close> is an \<open>int\<close>, returned here with the state because the
  calibration block prints it. Storing widens the \<open>uint16_t\<close> threshold to the
  store's 32 bits; loading cuts the stored 32 bits to the \<open>uint16_t\<close> variable.
\<close>

definition load_threshold :: "world \<Rightarrow> 32 word \<times> world" where
  "load_threshold s =
     (let s1 = prefs_begin ns False s;
          prefCalibrationValue = prefs_getInt capKey 0 s1;
          s2 = (if prefCalibrationValue = 0
                then (let a = serial_println
                                (Str ''No custom capacitive value set, setting default.'') s1;
                          b = prefs_putInt capKey (ucast (fullCapacitiveValue a)) a;
                          c = serial_print (Str ''Stored default value: '') b
                      in serial_println (Num (sint (prefs_getInt capKey 0 c))) c)
                else (let a = s1\<lparr>fullCapacitiveValue := ucast prefCalibrationValue\<rparr>;
                          b = serial_print (Str ''Loaded calibrated capacitive value: '') a
                      in serial_println (Num (uint (fullCapacitiveValue b))) b))
      in (prefCalibrationValue, prefs_end s2))"

text \<open>Lines 133 to 141: calibration is entered, the empty reference is taken.\<close>

definition calibration_start :: "world \<Rightarrow> error + world" where
  "calibration_start s =
     (let s1 = serial_println (Str ''Calibration...'') s;
          s2 = blinkLED 5 200 200 s1;
          s3 = digitalWrite LED_BUILTIN True s2
      in case getSmoothedTouch TOUCH_PIN 64 50 s3 of
           Inl e \<Rightarrow> Inl e
         | Inr (v, s4) \<Rightarrow>
             (let s5 = s4\<lparr>emptyCapacitiveValue := v\<rparr>;
                  s6 = serial_print (Str ''Empty capacitive value: '') s5;
                  s7 = serial_println (Num (uint (emptyCapacitiveValue s6))) s6
              in Inr (delay 1000 s7)))"

text \<open>
  Lines 144 to 149: pump and report until the button reads high. Nothing bounds
  the number of rounds, so the loop is a partial function: \<open>None\<close> is the run
  that never leaves it.
\<close>

partial_function (option) calibration_wait :: "world \<Rightarrow> (error + world) option" where
  "calibration_wait s =
     (case digitalRead BUTTON_IN s of (b, s1) \<Rightarrow>
        if b = 0
        then (let s2 = runPump 1000 s1;
                  s3 = serial_print (Str ''Capacitive Value: '') s2
              in case getSmoothedTouch TOUCH_PIN 64 50 s3 of
                   Inl e \<Rightarrow> Some (Inl e)
                 | Inr (v, s4) \<Rightarrow>
                     calibration_wait (delay 2000 (serial_println (Num (uint v)) s4)))
        else Some (Inr s1))"

text \<open>
  Lines 151 to 166: the new threshold is committed and the counter reset.
  \<open>getSmoothedTouch(TOUCH_PIN) + 1\<close> is computed in \<open>int\<close> and then cut to the
  \<open>uint16_t\<close> variable.
\<close>

definition calibration_commit :: "32 word \<Rightarrow> world \<Rightarrow> error + world" where
  "calibration_commit prefCalibrationValue s =
     (let s1 = delay 2000 s
      in case getSmoothedTouch TOUCH_PIN 64 50 s1 of
           Inl e \<Rightarrow> Inl e
         | Inr (v, s2) \<Rightarrow>
             (let s3 = s2\<lparr>fullCapacitiveValue := word_of_int (uint v + 1)\<rparr>;
                  s4 = serial_print (Str ''Updated capacitive from '') s3;
                  s5 = serial_print (Num (sint prefCalibrationValue)) s4;
                  s6 = serial_print (Str '' to '') s5;
                  s7 = serial_println (Num (uint (fullCapacitiveValue s6))) s6;
                  s8 = prefs_begin ns False s7;
                  s9 = prefs_putInt capKey (ucast (fullCapacitiveValue s8)) s8;
                  s10 = s9\<lparr>totalPumpsSinceCalibration := 0\<rparr>;
                  s11 = prefs_putUInt pumpKey (totalPumpsSinceCalibration s10) s10;
                  s12 = prefs_end s11
              in Inr (serial_println (Str ''Pump counter reset to 0'') s12)))"

text \<open>Lines 169 to 171.\<close>

definition setup_done :: "world \<Rightarrow> world" where
  "setup_done s = prefs_end (blinkLED 5 200 200 s)"

text \<open>The function \<open>setup\<close> itself, named \<open>setup_sketch\<close> because \<open>setup\<close> is a word of Isabelle.\<close>

definition setup_sketch :: "world \<Rightarrow> (error + world) option" where
  "setup_sketch s =
     (let s1 = setup_io s;
          s2 = load_pump_counter s1
      in case load_threshold s2 of (prefCalibrationValue, s3) \<Rightarrow>
         case digitalRead BUTTON_IN (delay 5000 s3) of (b, s4) \<Rightarrow>
           if b = 1
           then (case calibration_start s4 of
                   Inl e \<Rightarrow> Some (Inl e)
                 | Inr s5 \<Rightarrow>
                     (case calibration_wait s5 of
                        None \<Rightarrow> None
                      | Some (Inl e) \<Rightarrow> Some (Inl e)
                      | Some (Inr s6) \<Rightarrow>
                          (case calibration_commit prefCalibrationValue s6 of
                             Inl e \<Rightarrow> Some (Inl e)
                           | Inr s7 \<Rightarrow> Some (Inr (setup_done s7)))))
           else Some (Inr (setup_done s4)))"

subsection \<open>\<open>loop\<close> (lines 174 to 202)\<close>

text \<open>
  One call of \<open>loop\<close>. The comparison \<open>capacitiveValue > fullCapacitiveValue\<close> is
  between an \<open>int\<close> and a \<open>uint16_t\<close> promoted to \<open>int\<close>.
\<close>

definition loop :: "world \<Rightarrow> error + world" where
  "loop s =
     (case getSmoothedTouch TOUCH_PIN 64 50 s of
        Inl e \<Rightarrow> Inl e
      | Inr (v, s1) \<Rightarrow>
          (let capacitiveValue = uint v;
               s2 = serial_println (Str (CHR 0x0A # ''========== STATS =========='')) s1;
               s3 = serial_print (Str ''Measured Capacitive Value: '') s2;
               s4 = serial_println (Num capacitiveValue) s3;
               s5 = serial_print (Str ''Full Capacitive Value: '') s4;
               s6 = serial_println (Num (uint (fullCapacitiveValue s5))) s5;
               s7 = serial_print (Str ''Pumps since power up: '') s6;
               s8 = serial_println (Num (uint (totalPumpsSincePowerUp s7))) s7;
               s9 = serial_print (Str ''Pumps since last calibration: '') s8;
               s10 = serial_println (Num (uint (totalPumpsSinceCalibration s9))) s9;
               s11 = (if capacitiveValue > uint (fullCapacitiveValue s10)
                      then (if overflow_protect s10 > 5
                            then (let a = serial_println (Str ''Overflow protect'') s10;
                                      b = delay 30000 a
                                  in b\<lparr>overflow_protect := 0\<rparr>)
                            else (let a = runPump 1000 s10
                                  in a\<lparr>overflow_protect := overflow_protect a + 1\<rparr>))
                      else s10)
           in Inr (delay 2000 s11)))"

text \<open>The Arduino runtime calls \<open>loop\<close> again and again; \<open>run_loop n\<close> is the first \<open>n\<close> calls.\<close>

fun run_loop :: "nat \<Rightarrow> world \<Rightarrow> error + world" where
  "run_loop 0 s = Inr s"
| "run_loop (Suc n) s = (case loop s of Inl e \<Rightarrow> Inl e | Inr s' \<Rightarrow> run_loop n s')"

subsection \<open>Reading a trace\<close>

text \<open>The calls made between state \<open>s\<close> and a later state \<open>s'\<close>.\<close>

definition new_events :: "world \<Rightarrow> world \<Rightarrow> event list" where
  "new_events s s' = drop (length (trace s)) (trace s')"

text \<open>The writes to the pump's PWM channel.\<close>

fun is_pump_write :: "event \<Rightarrow> bool" where
  "is_pump_write (LedcWrite pin duty) = (pin = pumpPin)"
| "is_pump_write e = False"

definition pump_writes :: "event list \<Rightarrow> event list" where
  "pump_writes es = filter is_pump_write es"

text \<open>
  The blocking delays that elapse while the store is open; the first argument says
  whether it is open at the start of the list.
\<close>

fun sleeps_while_open :: "bool \<Rightarrow> event list \<Rightarrow> event list" where
  "sleeps_while_open is_open [] = []"
| "sleeps_while_open is_open (PrefsBegin name ro ok # es) = sleeps_while_open (is_open \<or> ok) es"
| "sleeps_while_open is_open (PrefsEnd # es) = sleeps_while_open False es"
| "sleeps_while_open is_open (Delay ms # es) =
     (if is_open then Delay ms # sleeps_while_open is_open es else sleeps_while_open is_open es)"
| "sleeps_while_open is_open (DelayMicroseconds us # es) =
     (if is_open then DelayMicroseconds us # sleeps_while_open is_open es
      else sleeps_while_open is_open es)"
| "sleeps_while_open is_open (e # es) = sleeps_while_open is_open es"

text \<open>
  What the first \<open>n\<close> calls of \<open>loop\<close> did: for each call the filtered reading it
  compared with the threshold, the calls it made to the board, and the value of
  \<open>overflow_protect\<close> when it returned. \<open>summary\<close> keeps of the calls the writes
  to the pump and the number of 30 second pauses.
\<close>

fun loop_log :: "nat \<Rightarrow> world \<Rightarrow> (int \<times> event list \<times> int) list" where
  "loop_log 0 s = []"
| "loop_log (Suc n) s =
     (case getSmoothedTouch TOUCH_PIN 64 50 s of
        Inl e \<Rightarrow> []
      | Inr (v, s1) \<Rightarrow>
          (case loop s of
             Inl e \<Rightarrow> []
           | Inr s' \<Rightarrow> (uint v, new_events s s', overflow_protect s') # loop_log n s'))"

fun summary :: "int \<times> event list \<times> int \<Rightarrow> int \<times> event list \<times> nat \<times> int" where
  "summary (r, es, c) = (r, pump_writes es, count_list es (Delay 30000), c)"

text \<open>The attempts to open the store.\<close>

fun is_open_attempt :: "event \<Rightarrow> bool" where
  "is_open_attempt (PrefsBegin name ro ok) = True"
| "is_open_attempt e = False"

text \<open>The lines and fragments written to the serial log.\<close>

fun serial_output :: "event list \<Rightarrow> serial_text list" where
  "serial_output [] = []"
| "serial_output (SerialPrint t # es) = t # serial_output es"
| "serial_output (SerialPrintln t # es) = t # serial_output es"
| "serial_output (e # es) = serial_output es"

subsection \<open>The sensor filter, as the specification words it\<close>

text \<open>The samples that the next \<open>k\<close> calls of \<open>touchRead\<close> deliver.\<close>

definition next_samples :: "world \<Rightarrow> nat \<Rightarrow> 16 word list" where
  "next_samples s k = map (touch_in s) [touch_pos s ..< touch_pos s + k]"

text \<open>The arithmetic mean of raw samples, truncated to an integer (section 4.1).\<close>

definition truncated_mean :: "16 word list \<Rightarrow> nat" where
  "truncated_mean xs = sum_list (map unat xs) div length xs"

text \<open>The reading that the filter hands out at its default 64 samples.\<close>

definition filtered :: "world \<Rightarrow> 16 word" where
  "filtered s = of_nat (truncated_mean (next_samples s 64))"

text \<open>The state after \<open>k\<close> samples spaced \<open>us\<close> microseconds were taken.\<close>

definition after_samples :: "nat \<Rightarrow> nat \<Rightarrow> world \<Rightarrow> world" where
  "after_samples k us s =
     s\<lparr>touch_pos := touch_pos s + k, trace := trace s @ replicate k (DelayMicroseconds us)\<rparr>"

text \<open>
  Whether a \<open>put\<close> made inside a scope that is opened now will reach the flash:
  the store is already open for writing, or it is closed and the medium answers.
\<close>

definition writable :: "world \<Rightarrow> bool" where
  "writable s = (if started (prefs s) then \<not> readOnly (prefs s) else nvs_available s)"

text \<open>The comparison of line 190 on the reading that the next call of \<open>loop\<close> takes.\<close>

definition over_threshold :: "world \<Rightarrow> bool" where
  "over_threshold s = (uint (fullCapacitiveValue s) < uint (filtered s))"

text \<open>The calls of lines 179 to 187, and those of one \<open>runPump\<close>.\<close>

definition stats_events :: "world \<Rightarrow> event list" where
  "stats_events s =
     [SerialPrintln (Str (CHR 0x0A # ''========== STATS =========='')),
      SerialPrint (Str ''Measured Capacitive Value: ''),
      SerialPrintln (Num (uint (filtered s))),
      SerialPrint (Str ''Full Capacitive Value: ''),
      SerialPrintln (Num (uint (fullCapacitiveValue s))),
      SerialPrint (Str ''Pumps since power up: ''),
      SerialPrintln (Num (uint (totalPumpsSincePowerUp s))),
      SerialPrint (Str ''Pumps since last calibration: ''),
      SerialPrintln (Num (uint (totalPumpsSinceCalibration s)))]"

definition pump_events :: "int \<Rightarrow> world \<Rightarrow> event list" where
  "pump_events d s =
     [PrefsBegin ns False (\<not> started (prefs s) \<and> nvs_available s),
      LedcWrite pumpPin dutyCycle, SerialPrintln (Str ''Pump on''),
      Delay (nat (d mod 2 ^ 32)),
      LedcWrite pumpPin 0, SerialPrintln (Str ''Pump off''),
      PrefsPutUInt pumpKey (totalPumpsSinceCalibration s + 1) (if writable s then 4 else 0),
      PrefsEnd]"

text \<open>One actuation, seen at the pump: on at the duty cycle, then off.\<close>

definition on_off :: "event list" where
  "on_off = [LedcWrite pumpPin dutyCycle, LedcWrite pumpPin 0]"

subsection \<open>The decision loop, as the specification words it\<close>

text \<open>
  Section 4.4: a reading above the threshold irrigates and counts up while the
  overflow counter is at most the trip limit 5; above the limit the iteration
  cools down instead, with no actuation, one 30 second pause and the counter back
  at 0. \<open>decision_step\<close> gives the writes to the pump, the number of 30 second
  pauses and the new counter; \<open>decision_run\<close> runs it over a list of readings.
\<close>

fun decision_step :: "int \<Rightarrow> int \<Rightarrow> int \<Rightarrow> event list \<times> nat \<times> int" where
  "decision_step thr c r =
     (if thr < r then (if 5 < c then ([], 1, 0) else (on_off, 0, c + 1)) else ([], 0, c))"

fun decision_run :: "int \<Rightarrow> int \<Rightarrow> int list \<Rightarrow> (int \<times> event list \<times> nat \<times> int) list" where
  "decision_run thr c [] = []"
| "decision_run thr c (r # rs) =
     (case decision_step thr c r of (w, p, c') \<Rightarrow> (r, w, p, c') # decision_run thr c' rs)"

subsection \<open>Concrete inputs\<close>

text \<open>
  A sensor that reads 10 during the first call of \<open>loop\<close> and 50 from then on, one
  that always reads 50, and a button that is never pressed; each with an empty,
  working flash.
\<close>

definition scenario_touch :: "nat \<Rightarrow> 16 word" where
  "scenario_touch i = (if i < 64 then 10 else 50)"

definition dry_touch :: "nat \<Rightarrow> 16 word" where
  "dry_touch i = 50"

definition never_pressed :: "nat \<Rightarrow> bool" where
  "never_pressed i = False"

definition scenario_start :: world where
  "scenario_start = boot Map.empty True scenario_touch never_pressed True"

definition dry_start :: world where
  "dry_start = boot Map.empty True dry_touch never_pressed True"

subsection \<open>What the blocks of \<open>setup\<close> and the trace look like\<close>

text \<open>The calls of lines 85 to 103; \<open>ok\<close> is the answer of \<open>ledcAttach\<close>.\<close>

definition io_events :: "bool \<Rightarrow> event list" where
  "io_events ok =
     [SerialBegin 115200, LedcAttach pumpPin freq resolution,
      SerialPrintln (Str (if ok then ''LEDC successfully configured!''
                          else ''Error in LEDC configuration!'')),
      PinMode EN_PIN OUTPUT, PinMode BUTTON_HIGH OUTPUT, PinMode BUTTON_IN INPUT,
      PinMode LED_BUILTIN OUTPUT, DigitalWrite EN_PIN True, DigitalWrite BUTTON_HIGH True,
      DigitalWrite BUTTON_IN False]"

text \<open>The calls of \<open>blinkLED(5)\<close>.\<close>

definition blink_events :: "event list" where
  "blink_events = concat (replicate 5
     [DigitalWrite LED_BUILTIN True, Delay 200, DigitalWrite LED_BUILTIN False, Delay 200])"

text \<open>
  What a \<open>get\<close> with default 0 yields inside a scope opened on a closed store:
  the stored value, or 0 when the key is absent or the medium does not open.
\<close>

definition stored :: "world \<Rightarrow> string \<Rightarrow> 32 word" where
  "stored s key = (if nvs_available s then (case nvs s key of None \<Rightarrow> 0 | Some v \<Rightarrow> v) else 0)"

text \<open>The \<open>Preferences\<close> object after a scope that was opened on a closed store.\<close>

definition closed_prefs :: "world \<Rightarrow> preferences" where
  "closed_prefs s = (if nvs_available s then \<lparr>started = False, readOnly = False\<rparr> else prefs s)"

text \<open>The calls of lines 153 to 166, of lines 116 to 128, and of lines 133 to 141.\<close>

definition commit_events :: "32 word \<Rightarrow> 16 word \<Rightarrow> bool \<Rightarrow> event list" where
  "commit_events prefCalibrationValue thr ok =
     [SerialPrint (Str ''Updated capacitive from ''),
      SerialPrint (Num (sint prefCalibrationValue)),
      SerialPrint (Str '' to ''),
      SerialPrintln (Num (uint thr)),
      PrefsBegin ns False ok,
      PrefsPutInt capKey (ucast thr) (if ok then 4 else 0),
      PrefsPutUInt pumpKey 0 (if ok then 4 else 0),
      PrefsEnd,
      SerialPrintln (Str ''Pump counter reset to 0'')]"

definition threshold_events :: "world \<Rightarrow> event list" where
  "threshold_events s =
     PrefsBegin ns False (nvs_available s) #
     (if stored s capKey = 0
      then [SerialPrintln (Str ''No custom capacitive value set, setting default.''),
            PrefsPutInt capKey (ucast (fullCapacitiveValue s)) (if nvs_available s then 4 else 0),
            SerialPrint (Str ''Stored default value: ''),
            SerialPrintln (Num (if nvs_available s then uint (fullCapacitiveValue s) else 0))]
      else [SerialPrint (Str ''Loaded calibrated capacitive value: ''),
            SerialPrintln (Num (uint (ucast (stored s capKey) :: 16 word)))])
     @ [PrefsEnd]"

definition start_events :: "world \<Rightarrow> event list" where
  "start_events s =
     SerialPrintln (Str ''Calibration...'') # blink_events
     @ DigitalWrite LED_BUILTIN True # replicate 64 (DelayMicroseconds 50)
     @ [SerialPrint (Str ''Empty capacitive value: ''),
        SerialPrintln (Num (uint (filtered s))), Delay 1000]"

text \<open>One round of the loop of lines 144 to 149, entered when the button reads low.\<close>

definition calibration_round :: "world \<Rightarrow> world" where
  "calibration_round s =
     (let s1 = s\<lparr>button_pos := Suc (button_pos s)\<rparr>;
          s3 = serial_print (Str ''Capacitive Value: '') (runPump 1000 s1);
          s4 = after_samples 64 50 s3
      in delay 2000 (serial_println (Num (uint (filtered s3))) s4))"

text \<open>The \<open>put\<close> calls on the store.\<close>

fun is_store_write :: "event \<Rightarrow> bool" where
  "is_store_write (PrefsPutInt key v n) = True"
| "is_store_write (PrefsPutUInt key v n) = True"
| "is_store_write e = False"

text \<open>
  The filtered reading taken last: the truncated mean of the 64 samples consumed
  last before state \<open>s\<close>.
\<close>

definition last_reading :: "world \<Rightarrow> 16 word" where
  "last_reading s =
     of_nat (truncated_mean (map (touch_in s) [touch_pos s - 64 ..< touch_pos s]))"

text \<open>
  One scope of the store, opened with success, in which the threshold \<open>thr\<close> and
  then the counter value 0 are written, and closed.
\<close>

definition store_scope :: "16 word \<Rightarrow> event list" where
  "store_scope thr =
     [PrefsBegin ns False True, PrefsPutInt capKey (ucast thr) 4, PrefsPutUInt pumpKey 0 4,
      PrefsEnd]"

text \<open>
  The same scope on a store that does not open: the \<open>begin\<close> is refused and the
  two \<open>put\<close> calls write nothing.
\<close>

definition refused_scope :: "16 word \<Rightarrow> event list" where
  "refused_scope thr =
     [PrefsBegin ns False False, PrefsPutInt capKey (ucast thr) 0, PrefsPutUInt pumpKey 0 0,
      PrefsEnd]"

text \<open>The state in which the loop of line 144 is entered (lines 84 to 141).\<close>

definition calibration_entry :: "world \<Rightarrow> world" where
  "calibration_entry s =
     projr (calibration_start (snd (digitalRead BUTTON_IN (delay 5000
       (snd (load_threshold (load_pump_counter (setup_io s))))))))"

text \<open>
  The final smoothed reading of a calibration run with the threshold and the
  counter that the flash holds once \<open>setup\<close> has returned.
\<close>

definition calibration_outcome ::
  "world \<Rightarrow> (16 word \<times> 32 word option \<times> 32 word option) option" where
  "calibration_outcome s =
     (case setup_sketch s of
        Some (Inr s') \<Rightarrow> Some (last_reading s', nvs s' capKey, nvs s' pumpKey)
      | _ \<Rightarrow> None)"

text \<open>The threshold in use and the threshold stored once \<open>setup\<close> has returned.\<close>

definition threshold_after_setup :: "world \<Rightarrow> (16 word \<times> 32 word option) option" where
  "threshold_after_setup s =
     (case setup_sketch s of
        Some (Inr s') \<Rightarrow> Some (fullCapacitiveValue s', nvs s' capKey)
      | _ \<Rightarrow> None)"

text \<open>
  More concrete inputs. A button that is high at the check of line 132, low at
  the first test of line 144 and high from then on (one pump round); one that is
  always high; a flash that holds a threshold and a counter; one that holds a
  calibrated threshold only; one that holds the sentinel 0. A sensor that reads
  50 during the first call of \<open>loop\<close> and 10 afterwards; one stuck at the highest
  16-bit value. A state in which \<open>overflow_protect\<close> has reached 6. A board whose
  flash does not open, before and after \<open>setup\<close>, and the serial output of such a
  start.
\<close>

definition calib_button :: "nat \<Rightarrow> bool" where
  "calib_button i = (i \<noteq> 1)"

definition always_pressed :: "nat \<Rightarrow> bool" where
  "always_pressed i = True"

definition used_flash :: "string \<rightharpoonup> 32 word" where
  "used_flash = [capKey \<mapsto> 60, pumpKey \<mapsto> 12]"

definition calibrated_flash :: "string \<rightharpoonup> 32 word" where
  "calibrated_flash = [capKey \<mapsto> 60]"

definition reboot_flash :: "string \<rightharpoonup> 32 word" where
  "reboot_flash = [capKey \<mapsto> 0, pumpKey \<mapsto> 0]"

definition wet_after_pump_touch :: "nat \<Rightarrow> 16 word" where
  "wet_after_pump_touch i = (if i < 64 then 50 else 10)"

definition saturated_touch :: "nat \<Rightarrow> 16 word" where
  "saturated_touch i = 65535"

definition wet_after_pump :: world where
  "wet_after_pump = boot Map.empty True wet_after_pump_touch never_pressed True"

definition saturated_start :: world where
  "saturated_start = boot Map.empty True saturated_touch always_pressed True"

text \<open>
  A recalibration, at readings of 65535 and with the button held, of a feeder
  that was calibrated to 60 and has pumped 12 times since.
\<close>

definition saturated_recalibration :: world where
  "saturated_recalibration = boot used_flash True saturated_touch always_pressed True"

definition tripped :: world where
  "tripped = dry_start\<lparr>overflow_protect := 6\<rparr>"

definition degraded_start :: world where
  "degraded_start = boot Map.empty False dry_touch never_pressed True"

definition degraded_ready :: world where
  "degraded_ready = (case setup_sketch degraded_start of Some (Inr s') \<Rightarrow> s' | _ \<Rightarrow> degraded_start)"

definition degraded_log :: "bool \<Rightarrow> serial_text list" where
  "degraded_log ledc =
     [Str (if ledc then ''LEDC successfully configured!'' else ''Error in LEDC configuration!''),
      Str ''Total pumps since last calibration: '', Num 0,
      Str ''No custom capacitive value set, setting default.'',
      Str ''Stored default value: '', Num 0]"

section \<open>Properties\<close>

subsection \<open>The sensor filter and the machine widths\<close>

lemma unat_succ_less: "(i::16 word) < n \<Longrightarrow> unat (i + 1) = Suc (unat i)"
proof -
  assume "i < n"
  then have "unat i < unat n" by (simp add: word_less_nat_alt)
  moreover have "unat n < 2 ^ 16" using unsigned_less [of n] by simp
  ultimately have "unat i + unat (1::16 word) < 2 ^ LENGTH(16)" by simp
  then have "unat (i + 1) = unat i + unat (1::16 word)" by (simp only: unat_add_lem)
  then show ?thesis by simp
qed

lemma next_samples_Suc:
  "next_samples s (Suc k) =
     touch_in s (touch_pos s) # next_samples (s\<lparr>touch_pos := Suc (touch_pos s), trace := tr\<rparr>) k"
proof -
  have "[touch_pos s ..< touch_pos s + Suc k] = touch_pos s # [Suc (touch_pos s) ..< Suc (touch_pos s) + k]"
    by (simp add: upt_conv_Cons)
  then show ?thesis by (simp add: next_samples_def)
qed

lemma after_samples_Suc:
  "after_samples k us (s\<lparr>touch_pos := Suc (touch_pos s), trace := trace s @ [DelayMicroseconds us]\<rparr>)
     = after_samples (Suc k) us s"
  by (simp add: after_samples_def replicate_app_Cons_same)

lemma touch_sum_eq:
  "touch_sum pin n d i acc s =
     (acc + of_nat (sum_list (map unat (next_samples s (unat n - unat i)))),
      after_samples (unat n - unat i) (unat d) s)"
proof (induction pin n d i acc s rule: touch_sum.induct)
  case (1 pin n d i acc s)
  show ?case
  proof (cases "i < n")
    case True
    then have lt: "unat i < unat n" by (simp add: word_less_nat_alt)
    from True have suc: "unat (i + 1) = Suc (unat i)" by (rule unat_succ_less)
    from lt suc have k: "unat n - unat i = Suc (unat n - unat (i + 1))" by simp
    let ?s1 = "s\<lparr>touch_pos := Suc (touch_pos s), trace := trace s @ [DelayMicroseconds (unat d)]\<rparr>"
    have step: "touch_sum pin n d i acc s =
        touch_sum pin n d (i + 1) (acc + ucast (touch_in s (touch_pos s))) ?s1"
      using True by (simp add: touch_sum.simps [of pin n d i] touchRead_def delayMicroseconds_def emit_def)
    have ih: "touch_sum pin n d (i + 1) (acc + ucast (touch_in s (touch_pos s))) ?s1 =
       (acc + ucast (touch_in s (touch_pos s))
          + of_nat (sum_list (map unat (next_samples ?s1 (unat n - unat (i + 1))))),
        after_samples (unat n - unat (i + 1)) (unat d) ?s1)"
    proof -
      have rd: "(touch_in s (touch_pos s), s\<lparr>touch_pos := Suc (touch_pos s)\<rparr>) = touchRead pin s"
        by (simp add: touchRead_def)
      have st: "delayMicroseconds d (s\<lparr>touch_pos := Suc (touch_pos s)\<rparr>) = ?s1"
        by (simp add: delayMicroseconds_def emit_def)
      show ?thesis
        by (rule "1.IH" [OF True rd, unfolded st])
    qed
    have ns: "next_samples s (unat n - unat i) =
        touch_in s (touch_pos s) # next_samples ?s1 (unat n - unat (i + 1))"
      by (simp only: k next_samples_Suc)
    have as: "after_samples (unat n - unat (i + 1)) (unat d) ?s1 =
        after_samples (unat n - unat i) (unat d) s"
      by (simp only: k after_samples_Suc)
    show ?thesis
      by (simp add: step ih ns as add.assoc)
  next
    case False
    then have "unat n - unat i = 0" by (simp add: word_less_nat_alt)
    with False show ?thesis
      by (simp add: touch_sum.simps [of pin n d i] next_samples_def after_samples_def)
  qed
qed

lemma uint_ucast_16_32: "uint (ucast (v::16 word) :: 32 word) = uint v"
  by (simp add: uint_up_ucast is_up)
lemma unat_ucast_16_32: "unat (ucast (v::16 word) :: 32 word) = unat v"
  by (simp only: unat_eq_nat_uint uint_ucast_16_32)
lemma ucast_of_nat_32_16: "(ucast (of_nat n :: 32 word) :: 16 word) = of_nat n"
proof -
  have "(ucast (word_of_int (int n) :: 32 word) :: 16 word) = word_of_int (int n)"
    by (rule ucast_down_wi) (simp add: is_down)
  then show ?thesis by simp
qed
lemma ucast_ucast_16_32: "(ucast (ucast (v::16 word) :: 32 word) :: 16 word) = v"
  by (rule ucast_up_ucast_id) (simp add: is_up)
lemma sint_ucast_16_32: "sint (ucast (v::16 word) :: 32 word) = uint v"
proof -
  have "uint v < 2 ^ 16" using uint_bounded [of v] by simp
  then have b: "uint v < 2 ^ 31" by simp
  have "sint (ucast v :: 32 word) = signed_take_bit 31 (uint (ucast v :: 32 word))"
    by (simp add: sint_uint)
  also have "\<dots> = signed_take_bit 31 (uint v)" by (simp only: uint_ucast_16_32)
  also have "\<dots> = uint v"
  proof (rule signed_take_bit_int_eq_self)
    have "- (2 ^ 31) \<le> (0::int)" by simp
    also have "0 \<le> uint v" by simp
    finally show "- (2 ^ 31) \<le> uint v" .
    show "uint v < 2 ^ 31" by (rule b)
  qed
  finally show ?thesis .
qed
lemma ucast_16_32_eq_0: "(ucast (v::16 word) :: 32 word) = 0 \<longleftrightarrow> v = 0"
proof -
  have "(ucast v :: 32 word) = 0 \<longleftrightarrow> uint (ucast v :: 32 word) = 0" by (simp add: uint_0_iff)
  also have "\<dots> \<longleftrightarrow> uint v = 0" by (simp only: uint_ucast_16_32)
  also have "\<dots> \<longleftrightarrow> v = 0" by (simp add: uint_0_iff)
  finally show ?thesis .
qed

lemma sum_list_bound:
  "sum_list (map unat (xs :: 16 word list)) \<le> 65535 * length xs"
proof (induction xs)
  case Nil
  show ?case by simp
next
  case (Cons x xs)
  have "unat x < 2 ^ 16" using unsigned_less [of x] by simp
  with Cons show ?case by simp
qed

lemma length_next_samples: "length (next_samples s k) = k"
  by (simp add: next_samples_def)

lemma sum32_no_wrap:
  assumes "length xs \<le> 65535"
  shows "sum_list (map unat (xs :: 16 word list)) < 2 ^ 32"
proof -
  have "sum_list (map unat xs) \<le> 65535 * length xs" by (rule sum_list_bound)
  also have "\<dots> \<le> 65535 * 65535" using assms by simp
  finally show ?thesis by simp
qed

lemma getSmoothedTouch_eq:
  assumes "samples \<noteq> 0"
  shows "getSmoothedTouch pin samples d s =
    Inr (of_nat (truncated_mean (next_samples s (unat samples))), after_samples (unat samples) (unat d) s)"
proof -
  let ?xs = "next_samples s (unat samples)"
  let ?S = "sum_list (map unat ?xs)"
  have len: "length ?xs = unat samples" by (rule length_next_samples)
  have "unat samples < 2 ^ 16" using unsigned_less [of samples] by simp
  then have "length ?xs \<le> 65535" using len by simp
  then have S: "?S < 2 ^ 32" by (rule sum32_no_wrap)
  have un: "unat (ucast samples :: 32 word) = unat samples" by (rule unat_ucast_16_32)
  have n0: "(ucast samples :: 32 word) \<noteq> 0" using assms by (simp add: ucast_16_32_eq_0)
  have uS: "unat (of_nat ?S :: 32 word) = ?S" using S by (simp add: unat_of_nat)
  have "unat ((of_nat ?S :: 32 word) div ucast samples) = ?S div unat samples"
    by (simp add: unat_div un uS)
  then have "(of_nat (unat ((of_nat ?S :: 32 word) div ucast samples)) :: 32 word)
      = of_nat (?S div unat samples)"
    by (simp only:)
  then have q: "(of_nat ?S :: 32 word) div ucast samples = of_nat (?S div unat samples)"
    by simp
  have "(ucast (of_nat (?S div unat samples) :: 32 word) :: 16 word) = of_nat (?S div unat samples)"
    by (rule ucast_of_nat_32_16)
  with q n0 show ?thesis
    by (simp add: getSmoothedTouch_def touch_sum_eq truncated_mean_def len)
qed


subsection \<open>\<open>runPump\<close> and \<open>loop\<close>, field by field\<close>

lemma getSmoothedTouch_default:
  "getSmoothedTouch TOUCH_PIN 64 50 s = Inr (filtered s, after_samples 64 50 s)"
  using getSmoothedTouch_eq [of 64 TOUCH_PIN 50 s] by (simp add: filtered_def)

lemmas board_defs = delay_def delayMicroseconds_def digitalWrite_def pinMode_def
  ledcWrite_def ledcAttach_def serial_begin_def serial_print_def serial_println_def

lemma emit_sel [simp]:
  "trace (emit e s) = trace s @ [e]"
  "overflow_protect (emit e s) = overflow_protect s"
  "emptyCapacitiveValue (emit e s) = emptyCapacitiveValue s"
  "fullCapacitiveValue (emit e s) = fullCapacitiveValue s"
  "totalPumpsSincePowerUp (emit e s) = totalPumpsSincePowerUp s"
  "totalPumpsSinceCalibration (emit e s) = totalPumpsSinceCalibration s"
  "prefs (emit e s) = prefs s"
  "nvs (emit e s) = nvs s"
  "nvs_available (emit e s) = nvs_available s"
  "touch_in (emit e s) = touch_in s"
  "touch_pos (emit e s) = touch_pos s"
  "button_in (emit e s) = button_in s"
  "button_pos (emit e s) = button_pos s"
  "ledc_ok (emit e s) = ledc_ok s"
  by (simp_all add: emit_def)

lemma after_samples_sel [simp]:
  "trace (after_samples k us s) = trace s @ replicate k (DelayMicroseconds us)"
  "overflow_protect (after_samples k us s) = overflow_protect s"
  "emptyCapacitiveValue (after_samples k us s) = emptyCapacitiveValue s"
  "fullCapacitiveValue (after_samples k us s) = fullCapacitiveValue s"
  "totalPumpsSincePowerUp (after_samples k us s) = totalPumpsSincePowerUp s"
  "totalPumpsSinceCalibration (after_samples k us s) = totalPumpsSinceCalibration s"
  "prefs (after_samples k us s) = prefs s"
  "nvs (after_samples k us s) = nvs s"
  "nvs_available (after_samples k us s) = nvs_available s"
  "touch_in (after_samples k us s) = touch_in s"
  "touch_pos (after_samples k us s) = touch_pos s + k"
  "button_in (after_samples k us s) = button_in s"
  "button_pos (after_samples k us s) = button_pos s"
  "ledc_ok (after_samples k us s) = ledc_ok s"
  by (simp_all add: after_samples_def)

lemma runPump_sel [simp]:
  "trace (runPump d s) = trace s @
     [PrefsBegin ns False (\<not> started (prefs s) \<and> nvs_available s),
      LedcWrite pumpPin dutyCycle, SerialPrintln (Str ''Pump on''),
      Delay (nat (d mod 2 ^ 32)),
      LedcWrite pumpPin 0, SerialPrintln (Str ''Pump off''),
      PrefsPutUInt pumpKey (totalPumpsSinceCalibration s + 1) (if writable s then 4 else 0),
      PrefsEnd]"
  "overflow_protect (runPump d s) = overflow_protect s"
  "emptyCapacitiveValue (runPump d s) = emptyCapacitiveValue s"
  "fullCapacitiveValue (runPump d s) = fullCapacitiveValue s"
  "totalPumpsSincePowerUp (runPump d s) = totalPumpsSincePowerUp s + 1"
  "totalPumpsSinceCalibration (runPump d s) = totalPumpsSinceCalibration s + 1"
  "started (prefs (runPump d s)) = False"
  "nvs (runPump d s) =
     (if writable s then (nvs s)(pumpKey \<mapsto> totalPumpsSinceCalibration s + 1) else nvs s)"
  "nvs_available (runPump d s) = nvs_available s"
  "touch_in (runPump d s) = touch_in s"
  "touch_pos (runPump d s) = touch_pos s"
  "button_in (runPump d s) = button_in s"
  "button_pos (runPump d s) = button_pos s"
  "ledc_ok (runPump d s) = ledc_ok s"
  by (simp_all add: runPump_def Let_def board_defs prefs_begin_def prefs_end_def
      prefs_putUInt_def writable_def)


lemma writable_frame [simp]:
  "writable (emit e s) = writable s"
  "writable (after_samples k us s) = writable s"
  by (simp_all add: writable_def)

lemma loop_Inr: "loop s = Inr (projr (loop s))"
  by (simp add: loop_def getSmoothedTouch_default Let_def)

lemma loop_sel:
  "trace (projr (loop s)) = trace s @ replicate 64 (DelayMicroseconds 50) @ stats_events s @
     (if over_threshold s
      then (if 5 < overflow_protect s
            then [SerialPrintln (Str ''Overflow protect''), Delay 30000]
            else pump_events 1000 s)
      else []) @ [Delay 2000]"
  "overflow_protect (projr (loop s)) =
     (if over_threshold s then (if 5 < overflow_protect s then 0 else overflow_protect s + 1)
      else overflow_protect s)"
  "emptyCapacitiveValue (projr (loop s)) = emptyCapacitiveValue s"
  "fullCapacitiveValue (projr (loop s)) = fullCapacitiveValue s"
  "totalPumpsSincePowerUp (projr (loop s)) =
     (if over_threshold s \<and> \<not> 5 < overflow_protect s then totalPumpsSincePowerUp s + 1
      else totalPumpsSincePowerUp s)"
  "totalPumpsSinceCalibration (projr (loop s)) =
     (if over_threshold s \<and> \<not> 5 < overflow_protect s then totalPumpsSinceCalibration s + 1
      else totalPumpsSinceCalibration s)"
  "nvs_available (projr (loop s)) = nvs_available s"
  "touch_in (projr (loop s)) = touch_in s"
  "touch_pos (projr (loop s)) = touch_pos s + 64"
  "button_in (projr (loop s)) = button_in s"
  "button_pos (projr (loop s)) = button_pos s"
  "ledc_ok (projr (loop s)) = ledc_ok s"
  by (simp_all add: loop_def getSmoothedTouch_default Let_def board_defs over_threshold_def
      stats_events_def pump_events_def)


lemma truncated_mean_replicate:
  "0 < n \<Longrightarrow> truncated_mean (replicate n c) = unat c"
  by (simp add: truncated_mean_def sum_list_replicate)

lemma next_samples_const:
  assumes "\<And>i. touch_pos s \<le> i \<Longrightarrow> i < touch_pos s + k \<Longrightarrow> touch_in s i = c"
  shows "next_samples s k = replicate k c"
proof -
  have "map (touch_in s) [touch_pos s ..< touch_pos s + k] = map (\<lambda>i. c) [touch_pos s ..< touch_pos s + k]"
    by (rule map_cong) (simp_all add: assms)
  then show ?thesis by (simp add: next_samples_def map_replicate_const)
qed

lemma filtered_const:
  assumes "\<And>i. touch_pos s \<le> i \<Longrightarrow> i < touch_pos s + 64 \<Longrightarrow> touch_in s i = c"
  shows "filtered s = c"
proof -
  have "next_samples s 64 = replicate 64 c" using assms by (rule next_samples_const)
  then show ?thesis by (simp add: filtered_def truncated_mean_replicate)
qed

lemma count_list_replicate_other: "x \<noteq> y \<Longrightarrow> count_list (replicate n x) y = 0"
  by (induction n) simp_all

lemma loop_log_Suc:
  "loop_log (Suc n) s =
     (uint (filtered s), new_events s (projr (loop s)), overflow_protect (projr (loop s)))
       # loop_log n (projr (loop s))"
  using loop_Inr [of s] by (cases "loop s") (simp_all add: getSmoothedTouch_default)

lemma loop_new_events:
  "pump_writes (new_events s (projr (loop s))) =
     (if over_threshold s \<and> \<not> 5 < overflow_protect s then on_off else [])"
  "count_list (new_events s (projr (loop s))) (Delay 30000) =
     (if over_threshold s \<and> 5 < overflow_protect s then 1 else 0)"
  by (simp_all add: new_events_def loop_sel pump_writes_def stats_events_def pump_events_def
      filter_replicate count_list_replicate_other on_off_def pumpPin_def)

subsection \<open>\<open>loop\<close> refines the decision state machine\<close>

lemma length_loop_log: "length (loop_log n s) = n"
  by (induction n arbitrary: s) (simp_all del: loop_log.simps add: loop_log_Suc loop_log.simps(1))

lemma loop_refines_decision:
  "map summary (loop_log n s) =
     decision_run (uint (fullCapacitiveValue s)) (overflow_protect s) (map fst (loop_log n s))"
proof (induction n arbitrary: s)
  case 0
  show ?case by simp
next
  case (Suc n)
  let ?s' = "projr (loop s)"
  have thr: "fullCapacitiveValue ?s' = fullCapacitiveValue s" by (simp add: loop_sel)
  show ?case
    unfolding loop_log_Suc
    by (simp add: Suc.IH [of ?s'] thr loop_new_events loop_sel over_threshold_def)
qed

lemma list8:
  assumes "length xs = 8"
  obtains a b c d e f g h where "xs = [a, b, c, d, e, f, g, h]"
proof -
  from assms have "\<exists>a b c d e f g h. xs = [a, b, c, d, e, f, g, h]"
    by (simp add: eval_nat_numeral length_Suc_conv) blast
  then show ?thesis using that by blast
qed


lemma truncated_mean_bound: "truncated_mean xs < 2 ^ 16"
proof -
  have "sum_list (map unat xs) \<le> 65535 * length xs" by (rule sum_list_bound)
  then have "sum_list (map unat xs) div length xs \<le> 65535 * length xs div length xs"
    by (rule div_le_mono)
  also have "\<dots> \<le> 65535" by simp
  finally show ?thesis by (simp add: truncated_mean_def)
qed

lemma unat_of_truncated_mean:
  "unat (of_nat (truncated_mean xs) :: 16 word) = truncated_mean xs"
  using truncated_mean_bound [of xs] by (simp add: unat_of_nat)

lemma constant_readings:
  assumes "\<And>i. touch_pos s \<le> i \<Longrightarrow> touch_in s i = c"
  shows "map fst (loop_log n s) = replicate n (uint c)"
  using assms
proof (induction n arbitrary: s)
  case 0
  show ?case by simp
next
  case (Suc n)
  have f: "filtered s = c" by (rule filtered_const) (simp add: Suc.prems)
  have "map fst (loop_log n (projr (loop s))) = replicate n (uint c)"
    by (rule Suc.IH) (simp add: loop_sel Suc.prems)
  then show ?case by (simp del: loop_log.simps add: loop_log_Suc f)
qed

subsection \<open>The blocks of \<open>setup\<close>\<close>

lemmas prefs_defs = prefs_begin_def prefs_end_def prefs_getInt_def prefs_getUInt_def
  prefs_putInt_def prefs_putUInt_def

lemma setup_io_eq: "setup_io s = s\<lparr>trace := trace s @ io_events (ledc_ok s)\<rparr>"
  by (simp add: setup_io_def Let_def board_defs emit_def io_events_def)

lemma blink_loop_trace:
  "blink_loop k a b s = s\<lparr>trace := trace s @ concat (replicate k
     [DigitalWrite LED_BUILTIN True, Delay (nat (a mod 2 ^ 32)),
      DigitalWrite LED_BUILTIN False, Delay (nat (b mod 2 ^ 32))])\<rparr>"
  by (induction k arbitrary: s) (simp_all add: board_defs emit_def)

lemma blinkLED_eq: "blinkLED 5 200 200 s = s\<lparr>trace := trace s @ blink_events\<rparr>"
  by (simp add: blinkLED_def blink_loop_trace blink_events_def)

lemma load_pump_counter_eq:
  assumes "\<not> started (prefs s)"
  shows "load_pump_counter s =
    s\<lparr>totalPumpsSinceCalibration := stored s pumpKey,
      prefs := closed_prefs s,
      trace := trace s @
        [PrefsBegin ns False (nvs_available s), Delay 1000, PrefsEnd,
         SerialPrint (Str ''Total pumps since last calibration: ''),
         SerialPrintln (Num (uint (stored s pumpKey)))]\<rparr>"
  using assms
  by (cases "nvs_available s")
    (simp_all add: load_pump_counter_def Let_def board_defs emit_def prefs_defs stored_def
      closed_prefs_def split: option.split)

lemma load_threshold_eq:
  assumes "\<not> started (prefs s)"
  shows "load_threshold s =
    (stored s capKey,
     s\<lparr>fullCapacitiveValue :=
         (if stored s capKey = 0 then fullCapacitiveValue s else ucast (stored s capKey)),
       nvs := (if nvs_available s \<and> stored s capKey = 0
               then (nvs s)(capKey \<mapsto> ucast (fullCapacitiveValue s)) else nvs s),
       prefs := closed_prefs s,
       trace := trace s @ threshold_events s\<rparr>)"
  using assms
  by (cases "nvs_available s")
    (simp_all add: load_threshold_def Let_def board_defs emit_def prefs_defs stored_def
      closed_prefs_def threshold_events_def sint_ucast_16_32 split: option.split)

lemma filtered_trace [simp]: "filtered (s\<lparr>trace := tr\<rparr>) = filtered s"
  by (simp add: filtered_def next_samples_def)

lemma filtered_emit [simp]: "filtered (emit e s) = filtered s"
  by (simp add: emit_def)

lemma prefs_begin_frame [simp]:
  "overflow_protect (prefs_begin name ro s) = overflow_protect s"
  "emptyCapacitiveValue (prefs_begin name ro s) = emptyCapacitiveValue s"
  "fullCapacitiveValue (prefs_begin name ro s) = fullCapacitiveValue s"
  "totalPumpsSincePowerUp (prefs_begin name ro s) = totalPumpsSincePowerUp s"
  "totalPumpsSinceCalibration (prefs_begin name ro s) = totalPumpsSinceCalibration s"
  "nvs_available (prefs_begin name ro s) = nvs_available s"
  "touch_in (prefs_begin name ro s) = touch_in s"
  "touch_pos (prefs_begin name ro s) = touch_pos s"
  "button_in (prefs_begin name ro s) = button_in s"
  "button_pos (prefs_begin name ro s) = button_pos s"
  "ledc_ok (prefs_begin name ro s) = ledc_ok s"
  "filtered (prefs_begin name ro s) = filtered s"
  by (simp_all add: prefs_begin_def filtered_def next_samples_def)

lemma prefs_end_frame [simp]:
  "overflow_protect (prefs_end s) = overflow_protect s"
  "emptyCapacitiveValue (prefs_end s) = emptyCapacitiveValue s"
  "fullCapacitiveValue (prefs_end s) = fullCapacitiveValue s"
  "totalPumpsSincePowerUp (prefs_end s) = totalPumpsSincePowerUp s"
  "totalPumpsSinceCalibration (prefs_end s) = totalPumpsSinceCalibration s"
  "nvs_available (prefs_end s) = nvs_available s"
  "touch_in (prefs_end s) = touch_in s"
  "touch_pos (prefs_end s) = touch_pos s"
  "button_in (prefs_end s) = button_in s"
  "button_pos (prefs_end s) = button_pos s"
  "ledc_ok (prefs_end s) = ledc_ok s"
  "filtered (prefs_end s) = filtered s"
  by (simp_all add: prefs_end_def filtered_def next_samples_def)

lemma prefs_putInt_frame [simp]:
  "overflow_protect (prefs_putInt key v s) = overflow_protect s"
  "emptyCapacitiveValue (prefs_putInt key v s) = emptyCapacitiveValue s"
  "fullCapacitiveValue (prefs_putInt key v s) = fullCapacitiveValue s"
  "totalPumpsSincePowerUp (prefs_putInt key v s) = totalPumpsSincePowerUp s"
  "totalPumpsSinceCalibration (prefs_putInt key v s) = totalPumpsSinceCalibration s"
  "nvs_available (prefs_putInt key v s) = nvs_available s"
  "touch_in (prefs_putInt key v s) = touch_in s"
  "touch_pos (prefs_putInt key v s) = touch_pos s"
  "button_in (prefs_putInt key v s) = button_in s"
  "button_pos (prefs_putInt key v s) = button_pos s"
  "ledc_ok (prefs_putInt key v s) = ledc_ok s"
  "filtered (prefs_putInt key v s) = filtered s"
  by (simp_all add: prefs_putInt_def filtered_def next_samples_def)

lemma prefs_putUInt_frame [simp]:
  "overflow_protect (prefs_putUInt key v s) = overflow_protect s"
  "emptyCapacitiveValue (prefs_putUInt key v s) = emptyCapacitiveValue s"
  "fullCapacitiveValue (prefs_putUInt key v s) = fullCapacitiveValue s"
  "totalPumpsSincePowerUp (prefs_putUInt key v s) = totalPumpsSincePowerUp s"
  "totalPumpsSinceCalibration (prefs_putUInt key v s) = totalPumpsSinceCalibration s"
  "nvs_available (prefs_putUInt key v s) = nvs_available s"
  "touch_in (prefs_putUInt key v s) = touch_in s"
  "touch_pos (prefs_putUInt key v s) = touch_pos s"
  "button_in (prefs_putUInt key v s) = button_in s"
  "button_pos (prefs_putUInt key v s) = button_pos s"
  "ledc_ok (prefs_putUInt key v s) = ledc_ok s"
  "filtered (prefs_putUInt key v s) = filtered s"
  by (simp_all add: prefs_putUInt_def filtered_def next_samples_def)

lemma calibration_commit_eq:
  assumes "\<not> started (prefs s)"
  shows "calibration_commit prefCalibrationValue s = Inr (s\<lparr>fullCapacitiveValue := filtered s + 1,
           totalPumpsSinceCalibration := 0,
           nvs := (if nvs_available s
                   then (nvs s)(capKey \<mapsto> ucast (filtered s + 1), pumpKey \<mapsto> 0) else nvs s),
           prefs := closed_prefs s,
           touch_pos := touch_pos s + 64,
           trace := trace s @ Delay 2000 # replicate 64 (DelayMicroseconds 50)
             @ commit_events prefCalibrationValue (filtered s + 1) (nvs_available s)\<rparr>)"
proof -
  have "calibration_commit prefCalibrationValue s =
    (let s2 = after_samples 64 50 (emit (Delay 2000) s);
         s7 = emit (SerialPrintln (Num (uint (filtered s + 1))))
               (emit (SerialPrint (Str '' to ''))
                 (emit (SerialPrint (Num (sint prefCalibrationValue)))
                   (emit (SerialPrint (Str ''Updated capacitive from ''))
                     (s2\<lparr>fullCapacitiveValue := filtered s + 1\<rparr>))));
         s8 = prefs_begin ns False s7;
         s9 = prefs_putInt capKey (ucast (filtered s + 1)) s8;
         s11 = prefs_putUInt pumpKey 0 (s9\<lparr>totalPumpsSinceCalibration := 0\<rparr>)
     in Inr (emit (SerialPrintln (Str ''Pump counter reset to 0'')) (prefs_end s11)))"
    by (simp add: calibration_commit_def getSmoothedTouch_default board_defs Let_def)
  also have "\<dots> = Inr (s\<lparr>fullCapacitiveValue := filtered s + 1,
           totalPumpsSinceCalibration := 0,
           nvs := (if nvs_available s
                   then (nvs s)(capKey \<mapsto> ucast (filtered s + 1), pumpKey \<mapsto> 0) else nvs s),
           prefs := closed_prefs s,
           touch_pos := touch_pos s + 64,
           trace := trace s @ Delay 2000 # replicate 64 (DelayMicroseconds 50)
             @ commit_events prefCalibrationValue (filtered s + 1) (nvs_available s)\<rparr>)"
    using assms
    by (cases "nvs_available s")
      (simp_all add: Let_def prefs_begin_def prefs_putInt_def prefs_putUInt_def prefs_end_def
        emit_def after_samples_def closed_prefs_def commit_events_def)
  finally show ?thesis .
qed

lemma calibration_start_eq:
  "calibration_start s =
    Inr (s\<lparr>emptyCapacitiveValue := filtered s,
           touch_pos := touch_pos s + 64,
           trace := trace s @ start_events s\<rparr>)"
  by (simp add: calibration_start_def Let_def getSmoothedTouch_default blinkLED_eq board_defs
      emit_def after_samples_def start_events_def)

lemma setup_done_eq:
  "setup_done s = s\<lparr>prefs := (prefs s)\<lparr>started := False\<rparr>,
                     trace := trace s @ blink_events @ [PrefsEnd]\<rparr>"
  by (simp add: setup_done_def blinkLED_eq prefs_end_def emit_def)

lemma calibration_wait_unfold:
  "calibration_wait s =
     (if button_in s (button_pos s) then Some (Inr (s\<lparr>button_pos := Suc (button_pos s)\<rparr>))
      else calibration_wait (calibration_round s))"
  by (subst calibration_wait.simps)
    (simp add: digitalRead_def getSmoothedTouch_default calibration_round_def Let_def)

lemma writable_button [simp]: "writable (s\<lparr>button_pos := n\<rparr>) = writable s"
  by (simp add: writable_def)

lemma calibration_round_sel [simp]:
  "nvs_available (calibration_round s) = nvs_available s"
  "touch_in (calibration_round s) = touch_in s"
  "button_in (calibration_round s) = button_in s"
  "button_pos (calibration_round s) = Suc (button_pos s)"
  "fullCapacitiveValue (calibration_round s) = fullCapacitiveValue s"
  "started (prefs (calibration_round s)) = False"
  "nvs (calibration_round s) =
     (if writable s then (nvs s)(pumpKey \<mapsto> totalPumpsSinceCalibration s + 1) else nvs s)"
  by (simp_all add: calibration_round_def Let_def board_defs)

lemma calibration_round_trace: "\<exists>es. trace (calibration_round s) = trace s @ es"
  by (simp add: calibration_round_def Let_def board_defs)

lemma calibration_wait_inv:
  assumes "calibration_wait s = Some r"
  shows "\<exists>s'. r = Inr s' \<and> nvs_available s' = nvs_available s \<and> touch_in s' = touch_in s
           \<and> fullCapacitiveValue s' = fullCapacitiveValue s
           \<and> (\<not> started (prefs s) \<longrightarrow> \<not> started (prefs s'))
           \<and> (\<not> started (prefs s) \<and> \<not> nvs_available s \<longrightarrow> nvs s' = nvs s)
           \<and> (\<exists>es. trace s' = trace s @ es)"
proof -
  define post :: "world \<Rightarrow> error + world \<Rightarrow> bool" where
    "post = (\<lambda>s r. \<exists>s'. r = Inr s' \<and> nvs_available s' = nvs_available s
           \<and> touch_in s' = touch_in s
           \<and> fullCapacitiveValue s' = fullCapacitiveValue s
           \<and> (\<not> started (prefs s) \<longrightarrow> \<not> started (prefs s'))
           \<and> (\<not> started (prefs s) \<and> \<not> nvs_available s \<longrightarrow> nvs s' = nvs s)
           \<and> (\<exists>es. trace s' = trace s @ es))"
  have "post s r"
  proof (rule calibration_wait.raw_induct [where P = post, OF _ assms])
    fix wait :: "world \<Rightarrow> (error + world) option" and s r
    assume IH: "\<And>s r. wait s = Some r \<Longrightarrow> post s r"
      and body: "(case digitalRead BUTTON_IN s of (b, s1) \<Rightarrow>
          if b = 0
          then (let s2 = runPump 1000 s1;
                    s3 = serial_print (Str ''Capacitive Value: '') s2
                in case getSmoothedTouch TOUCH_PIN 64 50 s3 of
                     Inl e \<Rightarrow> Some (Inl e)
                   | Inr (v, s4) \<Rightarrow> wait (delay 2000 (serial_println (Num (uint v)) s4)))
          else Some (Inr s1)) = Some r"
    show "post s r"
    proof (cases "button_in s (button_pos s)")
      case True
      with body show ?thesis by (auto simp: digitalRead_def post_def)
    next
      case False
      with body have "wait (calibration_round s) = Some r"
        by (simp add: digitalRead_def getSmoothedTouch_default calibration_round_def Let_def)
      then have "post (calibration_round s) r" by (rule IH)
      then obtain s' es1 where s': "r = Inr s'"
        "nvs_available s' = nvs_available s" "touch_in s' = touch_in s"
        "fullCapacitiveValue s' = fullCapacitiveValue s" "\<not> started (prefs s')"
        "\<not> started (prefs s) \<and> \<not> nvs_available s \<longrightarrow> nvs s' = nvs s"
        "trace s' = trace (calibration_round s) @ es1"
        by (auto simp: post_def writable_def)
      from calibration_round_trace obtain es0 where
        "trace (calibration_round s) = trace s @ es0" ..
      with s'(7) have "trace s' = trace s @ (es0 @ es1)" by simp
      then have "\<exists>es. trace s' = trace s @ es" ..
      with s' show ?thesis unfolding post_def by blast
    qed
  qed
  then show ?thesis by (simp add: post_def)
qed

lemma store_writes_blink [simp]: "filter is_store_write blink_events = []"
  by (simp add: blink_events_def eval_nat_numeral)

lemma store_writes_io [simp]: "filter is_store_write (io_events ok) = []"
  by (simp add: io_events_def)

lemma setup_no_calibration:
  assumes "\<not> button 0"
  shows "setup_sketch (boot flash avail touch button ledc) =
    Some (Inr (setup_done (snd (digitalRead BUTTON_IN (delay 5000 (snd (load_threshold
      (load_pump_counter (setup_io (boot flash avail touch button ledc))))))))))"
  using assms
  by (simp add: setup_sketch_def Let_def split_beta digitalRead_def delay_def
      setup_io_eq load_pump_counter_eq load_threshold_eq boot_def closed_prefs_def)

lemma keys_differ [simp]: "capKey \<noteq> pumpKey" "pumpKey \<noteq> capKey"
  by (simp_all add: capKey_def pumpKey_def)

lemma calibration_entry_boot:
  "\<not> started (prefs (calibration_entry (boot flash avail touch button ledc)))"
  "nvs_available (calibration_entry (boot flash avail touch button ledc)) = avail"
  "touch_in (calibration_entry (boot flash avail touch button ledc)) = touch"
  "touch_pos (calibration_entry (boot flash avail touch button ledc)) = 64"
  "button_in (calibration_entry (boot flash avail touch button ledc)) = button"
  "button_pos (calibration_entry (boot flash avail touch button ledc)) = 1"
  "\<not> avail \<Longrightarrow> nvs (calibration_entry (boot flash avail touch button ledc)) = flash"
  "avail \<Longrightarrow> nvs (calibration_entry (boot flash avail touch button ledc)) pumpKey = flash pumpKey"
  "totalPumpsSinceCalibration (calibration_entry (boot flash avail touch button ledc)) =
     (if avail then (case flash pumpKey of None \<Rightarrow> 0 | Some v \<Rightarrow> v) else 0)"
  by (simp_all add: calibration_entry_def setup_io_eq load_pump_counter_eq load_threshold_eq
      boot_def closed_prefs_def stored_def calibration_start_eq digitalRead_def delay_def)

lemma setup_pressed:
  assumes "button 0"
  shows "setup_sketch (boot flash avail touch button ledc) =
     (case calibration_wait (calibration_entry (boot flash avail touch button ledc)) of
        None \<Rightarrow> None
      | Some (Inl e) \<Rightarrow> Some (Inl e)
      | Some (Inr s6) \<Rightarrow>
          (case calibration_commit
                  (fst (load_threshold (load_pump_counter
                     (setup_io (boot flash avail touch button ledc))))) s6 of
             Inl e \<Rightarrow> Some (Inl e)
           | Inr s7 \<Rightarrow> Some (Inr (setup_done s7))))"
proof -
  let ?B = "boot flash avail touch button ledc"
  let ?s3 = "snd (load_threshold (load_pump_counter (setup_io ?B)))"
  have "button_in ?s3 = button" "button_pos ?s3 = 0"
    by (simp_all add: setup_io_eq load_pump_counter_eq load_threshold_eq boot_def
        closed_prefs_def)
  with assms have "fst (digitalRead BUTTON_IN (delay 5000 ?s3)) = 1"
    by (simp add: digitalRead_def delay_def)
  then show ?thesis
    by (simp add: setup_sketch_def Let_def split_beta calibration_start_eq
        calibration_entry_def)
qed

lemma setup_calibration:
  assumes pressed: "button 0"
    and ret: "setup_sketch (boot flash avail touch button ledc) = Some r"
  shows "\<exists>p s6. \<not> started (prefs s6) \<and> nvs_available s6 = avail \<and> touch_in s6 = touch
           \<and> (\<not> avail \<longrightarrow> nvs s6 = flash)
           \<and> (\<exists>es. trace s6 = trace (calibration_entry (boot flash avail touch button ledc)) @ es)
           \<and> r = Inr (setup_done (projr (calibration_commit p s6)))"
proof -
  let ?B = "boot flash avail touch button ledc"
  let ?s5 = "calibration_entry ?B"
  note s5 = calibration_entry_boot
    [where flash = flash and avail = avail and touch = touch and button = button and ledc = ledc]
  note unfold = setup_pressed
    [where button = button and flash = flash and avail = avail and touch = touch and ledc = ledc,
      OF pressed]
  from ret unfold obtain w where w: "calibration_wait ?s5 = Some w"
    by (cases "calibration_wait ?s5") simp_all
  from calibration_wait_inv [OF w] obtain s6 where s6: "w = Inr s6"
    "nvs_available s6 = nvs_available ?s5" "touch_in s6 = touch_in ?s5"
    "\<not> started (prefs ?s5) \<longrightarrow> \<not> started (prefs s6)"
    "\<not> started (prefs ?s5) \<and> \<not> nvs_available ?s5 \<longrightarrow> nvs s6 = nvs ?s5"
    "\<exists>es. trace s6 = trace ?s5 @ es"
    by blast
  from s6 s5 have closed: "\<not> started (prefs s6)" by blast
  have "r = Inr (setup_done (projr (calibration_commit
      (fst (load_threshold (load_pump_counter (setup_io ?B)))) s6)))"
    using ret unfolding unfold w s6(1) by (simp add: calibration_commit_eq [OF closed])
  with s6 s5 closed show ?thesis by auto
qed

lemma unat_succ_16: "(v :: 16 word) \<noteq> 65535 \<Longrightarrow> unat (v + 1) = unat v + 1"
proof -
  assume ne: "v \<noteq> 65535"
  have "unat v \<noteq> 65535"
  proof
    assume "unat v = 65535"
    then have "(of_nat (unat v) :: 16 word) = of_nat 65535" by (simp only:)
    then have "v = 65535" by simp
    with ne show False by simp
  qed
  moreover have "unat v < 2 ^ 16" using unsigned_less [of v] by simp
  ultimately have "unat v + unat (1 :: 16 word) < 2 ^ LENGTH(16)" by simp
  then have "unat (v + 1) = unat v + unat (1 :: 16 word)" by (simp only: unat_add_lem)
  then show ?thesis by simp
qed

lemma unat_succ_32: "(w :: 32 word) \<noteq> 4294967295 \<Longrightarrow> unat (w + 1) = unat w + 1"
proof -
  assume ne: "w \<noteq> 4294967295"
  have "unat w \<noteq> 4294967295"
  proof
    assume "unat w = 4294967295"
    then have "(of_nat (unat w) :: 32 word) = of_nat 4294967295" by (simp only:)
    then have "w = 4294967295" by simp
    with ne show False by simp
  qed
  moreover have "unat w < 2 ^ 32" using unsigned_less [of w] by simp
  ultimately have "unat w + unat (1 :: 32 word) < 2 ^ LENGTH(32)" by simp
  then have "unat (w + 1) = unat w + unat (1 :: 32 word)" by (simp only: unat_add_lem)
  then show ?thesis by simp
qed

lemma last_reading_after_commit:
  "touch_pos s' = touch_pos s + 64 \<Longrightarrow> touch_in s' = touch_in s \<Longrightarrow> last_reading s' = filtered s"
  by (simp add: last_reading_def filtered_def next_samples_def)

lemma commit_events_scope:
  "commit_events p thr True =
     [SerialPrint (Str ''Updated capacitive from ''), SerialPrint (Num (sint p)),
      SerialPrint (Str '' to ''), SerialPrintln (Num (uint thr))]
     @ store_scope thr @ [SerialPrintln (Str ''Pump counter reset to 0'')]"
  by (simp add: commit_events_def store_scope_def)

lemma last_reading_const:
  assumes "\<And>i. touch_in s i = c" "64 \<le> touch_pos s"
  shows "last_reading s = c"
proof -
  have "map (touch_in s) [touch_pos s - 64 ..< touch_pos s] = map (\<lambda>i. c) [touch_pos s - 64 ..< touch_pos s]"
    by (rule map_cong) (simp_all add: assms)
  then have "map (touch_in s) [touch_pos s - 64 ..< touch_pos s] = replicate 64 c"
    using assms(2) by (simp add: map_replicate_const)
  then show ?thesis by (simp add: last_reading_def truncated_mean_replicate)
qed

lemma calibration_run_returns:
  "\<exists>s'. setup_sketch (boot flash avail dry_touch calib_button True) = Some (Inr s')"
proof -
  let ?s5 = "calibration_entry (boot flash avail dry_touch calib_button True)"
  note s5 = calibration_entry_boot
    [where flash = flash and avail = avail and touch = dry_touch and button = calib_button
      and ledc = True]
  have "calibration_wait ?s5 = calibration_wait (calibration_round ?s5)"
    by (subst calibration_wait_unfold) (simp add: s5 calib_button_def)
  also have "\<dots> = Some (Inr (calibration_round ?s5\<lparr>button_pos := 3\<rparr>))"
    by (subst calibration_wait_unfold) (simp add: s5 calib_button_def)
  finally have w: "calibration_wait ?s5 = Some (Inr (calibration_round ?s5\<lparr>button_pos := 3\<rparr>))" .
  have closed: "\<not> started (prefs (calibration_round ?s5\<lparr>button_pos := 3\<rparr>))" by simp
  have "calib_button 0" by (simp add: calib_button_def)
  then show ?thesis
    by (simp add: setup_pressed w calibration_commit_eq [OF closed])
qed

lemma sleeps_closed_sampling [simp]:
  "sleeps_while_open False (replicate k (DelayMicroseconds us) @ es) = sleeps_while_open False es"
  by (induction k) simp_all

lemma wet_after_pump_readings: "map fst (loop_log 2 wet_after_pump) = [50, 10]"
proof -
  have first: "filtered wet_after_pump = 50"
    by (rule filtered_const) (simp add: wet_after_pump_def boot_def wet_after_pump_touch_def)
  have second: "filtered (projr (loop wet_after_pump)) = 10"
    by (rule filtered_const)
      (simp add: loop_sel wet_after_pump_def boot_def wet_after_pump_touch_def)
  have "loop_log 2 wet_after_pump = loop_log (Suc (Suc 0)) wet_after_pump"
    by (simp add: numeral_2_eq_2)
  then show ?thesis
    by (simp only: loop_log_Suc loop_log.simps(1) list.map fst_conv first second) simp
qed

lemma serial_output_append [simp]:
  "serial_output (xs @ ys) = serial_output xs @ serial_output ys"
  by (induction xs rule: serial_output.induct) simp_all

lemma serial_output_blink [simp]: "serial_output blink_events = []"
  by (simp add: blink_events_def eval_nat_numeral)

lemma open_attempts_blink [simp]: "filter is_open_attempt blink_events = []"
  by (simp add: blink_events_def eval_nat_numeral)

lemma loop_store:
  "nvs (projr (loop s)) =
     (if over_threshold s \<and> \<not> 5 < overflow_protect s \<and> writable s
      then (nvs s)(pumpKey \<mapsto> totalPumpsSinceCalibration s + 1) else nvs s)"
  "started (prefs (projr (loop s))) =
     (if over_threshold s \<and> \<not> 5 < overflow_protect s then False else started (prefs s))"
  by (simp_all add: loop_def getSmoothedTouch_default Let_def board_defs over_threshold_def)

lemma degraded_boot:
  assumes "\<not> button 0"
  shows "\<exists>s'. setup_sketch (boot flash False touch button ledc) = Some (Inr s')
    \<and> fullCapacitiveValue s' = 45 \<and> totalPumpsSinceCalibration s' = 0 \<and> nvs s' = flash
    \<and> \<not> started (prefs s') \<and> \<not> nvs_available s'
    \<and> overflow_protect s' = 0 \<and> touch_in s' = touch \<and> touch_pos s' = 0
    \<and> serial_output (trace s') = degraded_log ledc
    \<and> filter is_open_attempt (trace s') = [PrefsBegin ns False False, PrefsBegin ns False False]"
  unfolding setup_no_calibration [where button = button, OF assms]
  by (simp add: setup_done_eq digitalRead_def delay_def setup_io_eq load_pump_counter_eq
      load_threshold_eq boot_def stored_def closed_prefs_def threshold_events_def emit_def
      io_events_def degraded_log_def)

lemma serial_output_sampling [simp]:
  "serial_output (replicate k (DelayMicroseconds us)) = []"
  by (induction k) simp_all

lemma open_attempts_sampling [simp]:
  "filter is_open_attempt (replicate k (DelayMicroseconds us)) = []"
  by (induction k) simp_all

lemma degraded_entry_log:
  "\<exists>rest. serial_output (trace (calibration_entry (boot flash False touch button ledc)))
     = degraded_log ledc @ rest"
  by (simp add: calibration_entry_def setup_io_eq load_pump_counter_eq load_threshold_eq
      boot_def closed_prefs_def stored_def calibration_start_eq digitalRead_def delay_def
      threshold_events_def emit_def io_events_def degraded_log_def start_events_def)

lemma held_calibration_returns:
  "\<exists>s'. setup_sketch (boot flash avail touch always_pressed ledc) = Some (Inr s')"
proof -
  let ?s5 = "calibration_entry (boot flash avail touch always_pressed ledc)"
  note s5 = calibration_entry_boot
    [where flash = flash and avail = avail and touch = touch and button = always_pressed
      and ledc = ledc]
  have w: "calibration_wait ?s5 = Some (Inr (?s5\<lparr>button_pos := Suc (Suc 0)\<rparr>))"
    by (subst calibration_wait_unfold) (simp add: s5 always_pressed_def)
  have closed: "\<not> started (prefs (?s5\<lparr>button_pos := Suc (Suc 0)\<rparr>))" by (simp add: s5)
  have "always_pressed 0" by (simp add: always_pressed_def)
  then show ?thesis
    by (simp add: setup_pressed w calibration_commit_eq [OF closed])
qed

section \<open>The claims\<close>

subsection \<open>The sensor filter\<close>

text \<open>
  Claim C5. For every sample count \<open>samples\<close> of at least 1 (the parameter is a
  \<open>uint16_t\<close>) and whatever the sensor delivers, \<open>getSmoothedTouch\<close> returns; it
  has taken exactly the next \<open>samples\<close> raw samples, and its result is their
  arithmetic mean truncated to an integer. When these samples are all the same
  value \<open>c\<close>, the result is \<open>c\<close>.
\<close>

theorem getSmoothedTouch_truncated_mean:
  assumes "samples \<noteq> 0"
  shows "\<exists>v s'. getSmoothedTouch touchPin samples delayMicros s = Inr (v, s')
           \<and> length (next_samples s (unat samples)) = unat samples
           \<and> touch_pos s' = touch_pos s + unat samples
           \<and> unat v = truncated_mean (next_samples s (unat samples))
           \<and> (next_samples s (unat samples) = replicate (unat samples) c \<longrightarrow> v = c)"
proof -
  let ?xs = "next_samples s (unat samples)"
  let ?v = "of_nat (truncated_mean ?xs) :: 16 word"
  let ?s' = "after_samples (unat samples) (unat delayMicros) s"
  have run: "getSmoothedTouch touchPin samples delayMicros s = Inr (?v, ?s')"
    using assms by (rule getSmoothedTouch_eq)
  have len: "length ?xs = unat samples" by (rule length_next_samples)
  have pos: "touch_pos ?s' = touch_pos s + unat samples" by simp
  have mean: "unat ?v = truncated_mean ?xs" by (rule unat_of_truncated_mean)
  have same: "?xs = replicate (unat samples) c \<longrightarrow> ?v = c"
  proof
    assume eq: "?xs = replicate (unat samples) c"
    from assms have "0 < unat samples" by (simp add: unat_gt_0)
    then have "truncated_mean (replicate (unat samples) c) = unat c"
      by (rule truncated_mean_replicate)
    then show "?v = c" by (simp add: eq)
  qed
  from run len pos mean same show ?thesis by blast
qed

theorem getSmoothedTouch_truncated_mean_witness:
  "(64 :: 16 word) \<noteq> 0 \<and>
   (\<exists>v s'. getSmoothedTouch TOUCH_PIN 64 50 dry_start = Inr (v, s')
      \<and> touch_pos s' = 64 \<and> unat v = truncated_mean (next_samples dry_start 64) \<and> v = 50)"
proof -
  have ne: "(64 :: 16 word) \<noteq> 0" by simp
  have same: "next_samples dry_start (unat (64 :: 16 word)) = replicate (unat (64 :: 16 word)) 50"
    by (rule next_samples_const) (simp add: dry_start_def boot_def dry_touch_def)
  have pos: "touch_pos dry_start = 0" by (simp add: dry_start_def boot_def)
  show ?thesis
    using getSmoothedTouch_truncated_mean [OF ne, of TOUCH_PIN 50 dry_start 50] same pos
    by auto
qed

text \<open>
  Claim C10. With \<open>samples\<close> at least 1 the divisor of the final division is
  not zero and \<open>getSmoothedTouch\<close> returns a reading; no prefix of the samples
  sums to \<open>2^32\<close> or more, so the 32-bit accumulator never wraps and ends as the
  exact sum. The interface also admits \<open>samples = 0\<close>: the divisor is then zero
  and the call ends in the division fault.
\<close>

theorem getSmoothedTouch_total_for_positive_samples:
  "(samples \<noteq> 0 \<longrightarrow>
      (ucast samples :: 32 word) \<noteq> 0
      \<and> (\<exists>v s'. getSmoothedTouch touchPin samples delayMicros s = Inr (v, s'))
      \<and> (\<forall>k \<le> unat samples. sum_list (map unat (next_samples s k)) < 2 ^ 32)
      \<and> unat (fst (touch_sum touchPin samples delayMicros 0 0 s))
          = sum_list (map unat (next_samples s (unat samples))))
   \<and> (ucast (0 :: 16 word) :: 32 word) = 0
   \<and> getSmoothedTouch touchPin 0 delayMicros s = Inl DivideByZero"
proof -
  have bound: "sum_list (map unat (next_samples s k)) < 2 ^ 32" if "k \<le> unat samples" for k
  proof -
    have "unat samples < 2 ^ 16" using unsigned_less [of samples] by simp
    with that have "length (next_samples s k) \<le> 65535" by (simp add: length_next_samples)
    then show ?thesis by (rule sum32_no_wrap)
  qed
  have exact: "unat (fst (touch_sum touchPin samples delayMicros 0 0 s))
      = sum_list (map unat (next_samples s (unat samples)))"
    using bound [of "unat samples"] by (simp add: touch_sum_eq unat_of_nat)
  have zero: "getSmoothedTouch touchPin 0 delayMicros s = Inl DivideByZero"
    by (simp add: getSmoothedTouch_def touch_sum_eq)
  have pos: "(ucast samples :: 32 word) \<noteq> 0
      \<and> (\<exists>v s'. getSmoothedTouch touchPin samples delayMicros s = Inr (v, s'))"
    if "samples \<noteq> 0"
    using that by (simp add: ucast_16_32_eq_0 getSmoothedTouch_eq)
  from bound exact zero pos show ?thesis by simp
qed

theorem getSmoothedTouch_total_for_positive_samples_witness:
  "(64 :: 16 word) \<noteq> 0
   \<and> (\<exists>v s'. getSmoothedTouch TOUCH_PIN 64 50 scenario_start = Inr (v, s'))
   \<and> sum_list (map unat (next_samples scenario_start 64)) < 2 ^ 32
   \<and> getSmoothedTouch TOUCH_PIN 0 50 scenario_start = Inl DivideByZero"
  using getSmoothedTouch_total_for_positive_samples [of 64 TOUCH_PIN 50 scenario_start]
  by simp

subsection \<open>The decision loop\<close>

text \<open>
  Claim C1. A call of \<open>loop\<close> whose filtered reading exceeds the threshold while
  \<open>overflow_protect\<close> is at most 5 actuates the pump (one write of the duty cycle,
  one write of 0, no 30 second pause), counts the actuation and increments
  \<open>overflow_protect\<close>. Starting with \<open>overflow_protect\<close> at 0, eight calls in a row
  whose readings all exceed the threshold give six actuations with the counter
  going from 1 to 6, then a seventh call with no write to the pump, one pause of
  30000 ms and the counter back at 0, then an eighth call that actuates again.
  With threshold 45 and the readings 10, 50, 50, 50, 50, 50, 50, 50 the first
  call does nothing, calls 2 to 7 actuate with the counter at 1 to 6, and call 8
  cools down without actuation and resets the counter to 0.
\<close>

theorem overflow_protect_cooldown_after_six_actuations:
  "(getSmoothedTouch TOUCH_PIN 64 50 s = Inr (v, s1)
      \<and> uint (fullCapacitiveValue s) < uint v \<and> overflow_protect s \<le> 5
    \<longrightarrow> (\<exists>s'. loop s = Inr s' \<and> pump_writes (new_events s s') = on_off
            \<and> count_list (new_events s s') (Delay 30000) = 0
            \<and> totalPumpsSincePowerUp s' = totalPumpsSincePowerUp s + 1
            \<and> overflow_protect s' = overflow_protect s + 1))
   \<and> (overflow_protect t = 0
        \<and> (\<forall>x \<in> set (loop_log 8 t). uint (fullCapacitiveValue t) < fst x)
      \<longrightarrow> map (snd \<circ> summary) (loop_log 8 t) =
           [(on_off, 0, 1), (on_off, 0, 2), (on_off, 0, 3), (on_off, 0, 4), (on_off, 0, 5),
            (on_off, 0, 6), ([], 1, 0), (on_off, 0, 1)])
   \<and> (fullCapacitiveValue u = 45 \<and> overflow_protect u = 0
        \<and> map fst (loop_log 8 u) = [10, 50, 50, 50, 50, 50, 50, 50]
      \<longrightarrow> map summary (loop_log 8 u) =
           [(10, [], 0, 0), (50, on_off, 0, 1), (50, on_off, 0, 2), (50, on_off, 0, 3),
            (50, on_off, 0, 4), (50, on_off, 0, 5), (50, on_off, 0, 6), (50, [], 1, 0)])"
proof (intro conjI impI)
  assume a: "getSmoothedTouch TOUCH_PIN 64 50 s = Inr (v, s1)
      \<and> uint (fullCapacitiveValue s) < uint v \<and> overflow_protect s \<le> 5"
  then have v: "v = filtered s" by (simp add: getSmoothedTouch_default)
  with a have o: "over_threshold s" by (simp add: over_threshold_def)
  from a have c: "\<not> 5 < overflow_protect s" by simp
  have "pump_writes (new_events s (projr (loop s))) = on_off"
    "count_list (new_events s (projr (loop s))) (Delay 30000) = 0"
    using o c by (simp_all add: loop_new_events)
  moreover have "overflow_protect (projr (loop s)) = overflow_protect s + 1"
    "totalPumpsSincePowerUp (projr (loop s)) = totalPumpsSincePowerUp s + 1"
    using o c by (simp_all add: loop_sel)
  ultimately show "\<exists>s'. loop s = Inr s' \<and> pump_writes (new_events s s') = on_off
            \<and> count_list (new_events s s') (Delay 30000) = 0
            \<and> totalPumpsSincePowerUp s' = totalPumpsSincePowerUp s + 1
            \<and> overflow_protect s' = overflow_protect s + 1"
    using loop_Inr [of s] by blast
next
  assume a: "overflow_protect t = 0
        \<and> (\<forall>x \<in> set (loop_log 8 t). uint (fullCapacitiveValue t) < fst x)"
  have "length (map fst (loop_log 8 t)) = 8" by (simp add: length_loop_log)
  then obtain a b c d e f g h where rs: "map fst (loop_log 8 t) = [a, b, c, d, e, f, g, h]"
    by (rule list8)
  from a have "\<forall>r \<in> set (map fst (loop_log 8 t)). uint (fullCapacitiveValue t) < r"
    by simp
  then have over: "uint (fullCapacitiveValue t) < a" "uint (fullCapacitiveValue t) < b"
    "uint (fullCapacitiveValue t) < c" "uint (fullCapacitiveValue t) < d"
    "uint (fullCapacitiveValue t) < e" "uint (fullCapacitiveValue t) < f"
    "uint (fullCapacitiveValue t) < g" "uint (fullCapacitiveValue t) < h"
    unfolding rs by simp_all
  from a have ov: "overflow_protect t = 0" by simp
  have "map (snd \<circ> summary) (loop_log 8 t) = map snd (map summary (loop_log 8 t))"
    by simp
  also have "\<dots> = map snd (decision_run (uint (fullCapacitiveValue t)) 0 [a, b, c, d, e, f, g, h])"
    by (simp only: loop_refines_decision ov rs)
  also have "\<dots> = [(on_off, 0, 1), (on_off, 0, 2), (on_off, 0, 3), (on_off, 0, 4),
      (on_off, 0, 5), (on_off, 0, 6), ([], 1, 0), (on_off, 0, 1)]"
    using over by simp
  finally show "map (snd \<circ> summary) (loop_log 8 t) =
           [(on_off, 0, 1), (on_off, 0, 2), (on_off, 0, 3), (on_off, 0, 4), (on_off, 0, 5),
            (on_off, 0, 6), ([], 1, 0), (on_off, 0, 1)]" .
next
  assume a: "fullCapacitiveValue u = 45 \<and> overflow_protect u = 0
        \<and> map fst (loop_log 8 u) = [10, 50, 50, 50, 50, 50, 50, 50]"
  then show "map summary (loop_log 8 u) =
           [(10, [], 0, 0), (50, on_off, 0, 1), (50, on_off, 0, 2), (50, on_off, 0, 3),
            (50, on_off, 0, 4), (50, on_off, 0, 5), (50, on_off, 0, 6), (50, [], 1, 0)]"
    by (simp add: loop_refines_decision)
qed

lemma dry_readings: "map fst (loop_log n dry_start) = replicate n 50"
  using constant_readings [of dry_start 50 n] by (simp add: dry_start_def boot_def dry_touch_def)

lemma scenario_readings:
  "map fst (loop_log 8 scenario_start) = [10, 50, 50, 50, 50, 50, 50, 50]"
proof -
  have first: "filtered scenario_start = 10"
    by (rule filtered_const) (simp add: scenario_start_def boot_def scenario_touch_def)
  have "map fst (loop_log 7 (projr (loop scenario_start))) = replicate 7 (uint (50 :: 16 word))"
    by (rule constant_readings)
      (simp add: loop_sel scenario_start_def boot_def scenario_touch_def)
  moreover have seven: "(7 :: nat) = Suc (Suc (Suc (Suc (Suc (Suc (Suc 0))))))"
    by simp
  have "replicate 7 (uint (50 :: 16 word)) = [50, 50, 50, 50, 50, 50, 50]"
    by (simp add: seven)
  ultimately have rest:
    "map fst (loop_log 7 (projr (loop scenario_start))) = [50, 50, 50, 50, 50, 50, 50]"
    by (simp only:)
  have "loop_log 8 scenario_start = loop_log (Suc 7) scenario_start" by simp
  then show ?thesis
    by (simp only: loop_log_Suc list.map fst_conv first rest) simp
qed

theorem overflow_protect_cooldown_after_six_actuations_witness:
  "(\<exists>s'. loop dry_start = Inr s' \<and> pump_writes (new_events dry_start s') = on_off
       \<and> overflow_protect s' = 1)
   \<and> map (snd \<circ> summary) (loop_log 8 dry_start) =
        [(on_off, 0, 1), (on_off, 0, 2), (on_off, 0, 3), (on_off, 0, 4), (on_off, 0, 5),
         (on_off, 0, 6), ([], 1, 0), (on_off, 0, 1)]
   \<and> map summary (loop_log 8 scenario_start) =
        [(10, [], 0, 0), (50, on_off, 0, 1), (50, on_off, 0, 2), (50, on_off, 0, 3),
         (50, on_off, 0, 4), (50, on_off, 0, 5), (50, on_off, 0, 6), (50, [], 1, 0)]"
proof -
  have f: "filtered dry_start = 50"
    by (rule filtered_const) (simp add: dry_start_def boot_def dry_touch_def)
  have h1: "getSmoothedTouch TOUCH_PIN 64 50 dry_start = Inr (50, after_samples 64 50 dry_start)"
    by (simp add: getSmoothedTouch_default f)
  have h2: "uint (fullCapacitiveValue dry_start) < uint (50 :: 16 word)"
    "overflow_protect dry_start \<le> 5" "overflow_protect dry_start = 0"
    by (simp_all add: dry_start_def boot_def)
  have h3: "\<forall>x \<in> set (loop_log 8 dry_start). uint (fullCapacitiveValue dry_start) < fst x"
  proof -
    have "\<forall>r \<in> set (map fst (loop_log 8 dry_start)). uint (fullCapacitiveValue dry_start) < r"
      by (simp only: dry_readings) (simp add: dry_start_def boot_def)
    then show ?thesis by simp
  qed
  have h4: "fullCapacitiveValue scenario_start = 45" "overflow_protect scenario_start = 0"
    by (simp_all add: scenario_start_def boot_def)
  show ?thesis
    using overflow_protect_cooldown_after_six_actuations
      [of dry_start 50 "after_samples 64 50 dry_start" dry_start scenario_start]
      h1 h2 h3 h4 scenario_readings
    by auto
qed

subsection \<open>The pump primitive\<close>

text \<open>
  Claim C4. Every call of \<open>runPump\<close> adds exactly 1 to the power-up counter and
  exactly 1 to the calibration counter (in their 32-bit type: as numbers they grow
  by 1 unless the counter stands at \<open>2^32 - 1\<close>). When the store is closed at the
  call and its medium opens, as in every call the sketch makes on a working
  flash, the value held under \<open>totalPump\<close> at the end of the call is the counter
  in memory, and the call writes the store once only, with that value; so an
  interrupted actuation leaves the old or the new count in flash. The store is
  closed when the call returns.
\<close>

theorem runPump_counts_and_persists:
  "totalPumpsSincePowerUp (runPump durationMs s) = totalPumpsSincePowerUp s + 1
   \<and> totalPumpsSinceCalibration (runPump durationMs s) = totalPumpsSinceCalibration s + 1
   \<and> (totalPumpsSincePowerUp s \<noteq> 4294967295 \<longrightarrow>
         unat (totalPumpsSincePowerUp (runPump durationMs s)) = unat (totalPumpsSincePowerUp s) + 1)
   \<and> (totalPumpsSinceCalibration s \<noteq> 4294967295 \<longrightarrow>
         unat (totalPumpsSinceCalibration (runPump durationMs s))
           = unat (totalPumpsSinceCalibration s) + 1)
   \<and> (nvs_available s \<and> \<not> started (prefs s) \<longrightarrow>
         nvs (runPump durationMs s) pumpKey = Some (totalPumpsSinceCalibration (runPump durationMs s))
         \<and> filter is_store_write (new_events s (runPump durationMs s))
             = [PrefsPutUInt pumpKey (totalPumpsSinceCalibration s + 1) 4])
   \<and> \<not> started (prefs (runPump durationMs s))"
proof -
  let ?s' = "runPump durationMs s"
  have up: "totalPumpsSincePowerUp ?s' = totalPumpsSincePowerUp s + 1"
    and cal: "totalPumpsSinceCalibration ?s' = totalPumpsSinceCalibration s + 1"
    and closed: "\<not> started (prefs ?s')"
    by simp_all
  have up_nat: "unat (totalPumpsSincePowerUp ?s') = unat (totalPumpsSincePowerUp s) + 1"
    if "totalPumpsSincePowerUp s \<noteq> 4294967295"
    unfolding up using that by (rule unat_succ_32)
  have cal_nat: "unat (totalPumpsSinceCalibration ?s') = unat (totalPumpsSinceCalibration s) + 1"
    if "totalPumpsSinceCalibration s \<noteq> 4294967295"
    unfolding cal using that by (rule unat_succ_32)
  have persisted: "nvs ?s' pumpKey = Some (totalPumpsSinceCalibration ?s')
      \<and> filter is_store_write (new_events s ?s')
          = [PrefsPutUInt pumpKey (totalPumpsSinceCalibration s + 1) 4]"
    if "nvs_available s \<and> \<not> started (prefs s)"
  proof -
    from that have w: "writable s" by (simp add: writable_def)
    then have "nvs ?s' pumpKey = Some (totalPumpsSinceCalibration s + 1)" by simp
    moreover from w have "filter is_store_write (new_events s ?s')
        = [PrefsPutUInt pumpKey (totalPumpsSinceCalibration s + 1) 4]"
      by (simp add: new_events_def)
    ultimately show ?thesis by (simp only: cal)
  qed
  from up cal up_nat cal_nat persisted closed show ?thesis by blast
qed

theorem runPump_counts_and_persists_witness:
  "nvs_available dry_start \<and> \<not> started (prefs dry_start)
   \<and> totalPumpsSincePowerUp (runPump 1000 dry_start) = 1
   \<and> totalPumpsSinceCalibration (runPump 1000 dry_start) = 1
   \<and> unat (totalPumpsSinceCalibration (runPump 1000 dry_start)) = 1
   \<and> nvs (runPump 1000 dry_start) pumpKey = Some 1"
proof -
  have h: "nvs_available dry_start" "\<not> started (prefs dry_start)"
    "totalPumpsSincePowerUp dry_start = 0" "totalPumpsSinceCalibration dry_start = 0"
    by (simp_all add: dry_start_def boot_def)
  show ?thesis
    using runPump_counts_and_persists [of 1000 dry_start] h by simp
qed




subsection \<open>The overflow counter\<close>

text \<open>
  Claim C7, as stated, fails: with readings 50 and then 10 at threshold 45 the
  first call of \<open>loop\<close> actuates and leaves \<open>overflow_protect\<close> at 1; the second
  call observes a reading that does not exceed the threshold and leaves the
  counter at 1, not at 0.
\<close>

theorem idle_iteration_keeps_counter_counterexample:
  "map summary (loop_log 2 wet_after_pump) = [(50, on_off, 0, 1), (10, [], 0, 1)]"
proof -
  have "fullCapacitiveValue wet_after_pump = 45" "overflow_protect wet_after_pump = 0"
    by (simp_all add: wet_after_pump_def boot_def)
  then show ?thesis
    by (simp add: loop_refines_decision wet_after_pump_readings)
qed

text \<open>
  Claim C7, amended. \<open>overflow_protect\<close> is reset to 0 whenever the cool-down
  path fires (reading above the threshold, counter above 5: one pause of 30000
  ms, no write to the pump). A call of \<open>loop\<close> whose reading does not exceed the
  threshold leaves the counter as it was, and neither pumps nor pauses.
\<close>

theorem overflow_protect_reset_only_by_cooldown:
  "(getSmoothedTouch TOUCH_PIN 64 50 s = Inr (v, s1)
      \<and> uint (fullCapacitiveValue s) < uint v \<and> 5 < overflow_protect s
    \<longrightarrow> (\<exists>s'. loop s = Inr s' \<and> overflow_protect s' = 0
            \<and> count_list (new_events s s') (Delay 30000) = 1
            \<and> pump_writes (new_events s s') = []))
   \<and> (getSmoothedTouch TOUCH_PIN 64 50 t = Inr (w, t1)
      \<and> \<not> uint (fullCapacitiveValue t) < uint w
    \<longrightarrow> (\<exists>t'. loop t = Inr t' \<and> overflow_protect t' = overflow_protect t
            \<and> count_list (new_events t t') (Delay 30000) = 0
            \<and> pump_writes (new_events t t') = []))"
proof (intro conjI impI)
  assume a: "getSmoothedTouch TOUCH_PIN 64 50 s = Inr (v, s1)
      \<and> uint (fullCapacitiveValue s) < uint v \<and> 5 < overflow_protect s"
  then have "v = filtered s" by (simp add: getSmoothedTouch_default)
  with a have o: "over_threshold s" "5 < overflow_protect s" by (simp_all add: over_threshold_def)
  then have "overflow_protect (projr (loop s)) = 0"
    "count_list (new_events s (projr (loop s))) (Delay 30000) = 1"
    "pump_writes (new_events s (projr (loop s))) = []"
    by (simp_all add: loop_sel loop_new_events)
  then show "\<exists>s'. loop s = Inr s' \<and> overflow_protect s' = 0
            \<and> count_list (new_events s s') (Delay 30000) = 1
            \<and> pump_writes (new_events s s') = []"
    using loop_Inr [of s] by blast
next
  assume a: "getSmoothedTouch TOUCH_PIN 64 50 t = Inr (w, t1)
      \<and> \<not> uint (fullCapacitiveValue t) < uint w"
  then have "w = filtered t" by (simp add: getSmoothedTouch_default)
  with a have o: "\<not> over_threshold t" by (simp add: over_threshold_def)
  then have "overflow_protect (projr (loop t)) = overflow_protect t"
    "count_list (new_events t (projr (loop t))) (Delay 30000) = 0"
    "pump_writes (new_events t (projr (loop t))) = []"
    by (simp_all add: loop_sel loop_new_events)
  then show "\<exists>t'. loop t = Inr t' \<and> overflow_protect t' = overflow_protect t
            \<and> count_list (new_events t t') (Delay 30000) = 0
            \<and> pump_writes (new_events t t') = []"
    using loop_Inr [of t] by blast
qed

theorem overflow_protect_reset_only_by_cooldown_witness:
  "(\<exists>s'. loop tripped = Inr s' \<and> overflow_protect tripped = 6 \<and> overflow_protect s' = 0
       \<and> count_list (new_events tripped s') (Delay 30000) = 1)
   \<and> (\<exists>t'. loop scenario_start = Inr t' \<and> overflow_protect t' = overflow_protect scenario_start
       \<and> pump_writes (new_events scenario_start t') = [])"
proof -
  have f1: "filtered tripped = 50"
    by (rule filtered_const) (simp add: tripped_def dry_start_def boot_def dry_touch_def)
  have f2: "filtered scenario_start = 10"
    by (rule filtered_const) (simp add: scenario_start_def boot_def scenario_touch_def)
  have h1: "getSmoothedTouch TOUCH_PIN 64 50 tripped = Inr (50, after_samples 64 50 tripped)"
    "getSmoothedTouch TOUCH_PIN 64 50 scenario_start = Inr (10, after_samples 64 50 scenario_start)"
    by (simp_all add: getSmoothedTouch_default f1 f2)
  have h2: "uint (fullCapacitiveValue tripped) < uint (50 :: 16 word)" "5 < overflow_protect tripped"
    "overflow_protect tripped = 6"
    "\<not> uint (fullCapacitiveValue scenario_start) < uint (10 :: 16 word)"
    by (simp_all add: tripped_def dry_start_def scenario_start_def boot_def)
  show ?thesis
    using overflow_protect_reset_only_by_cooldown
      [of tripped 50 "after_samples 64 50 tripped" scenario_start 10
        "after_samples 64 50 scenario_start"] h1 h2
    by auto
qed

subsection \<open>Initialisation\<close>

text \<open>
  Claim C3. On a board whose flash opens, when no calibration is requested,
  \<open>setup\<close> returns. If the threshold key is absent or holds 0, the threshold in
  use is the default 45, the key holds 45 afterwards, and that is the only write
  to the store. If the key holds a threshold \<open>V\<close> other than 0 (a 16-bit value,
  stored in the key's 32 bits as the sketch stores thresholds), the threshold in
  use is exactly \<open>V\<close>, the key still holds \<open>V\<close>, and \<open>setup\<close> wrote nothing to
  the store.
\<close>

theorem threshold_after_initialisation:
  assumes "\<not> button 0"
  shows "\<exists>s'. setup_sketch (boot flash True touch button ledc) = Some (Inr s')
    \<and> (flash capKey = None \<or> flash capKey = Some 0 \<longrightarrow>
          fullCapacitiveValue s' = 45 \<and> nvs s' capKey = Some 45
          \<and> filter is_store_write (trace s') = [PrefsPutInt capKey 45 4])
    \<and> (flash capKey = Some (ucast V) \<and> V \<noteq> 0 \<longrightarrow>
          fullCapacitiveValue s' = V \<and> nvs s' capKey = Some (ucast V)
          \<and> filter is_store_write (trace s') = [])"
  unfolding setup_no_calibration [of button, OF assms]
  by (auto simp: setup_done_eq digitalRead_def delay_def setup_io_eq load_pump_counter_eq
      load_threshold_eq boot_def stored_def closed_prefs_def threshold_events_def
      ucast_16_32_eq_0 ucast_ucast_16_32 emit_def)

theorem threshold_after_initialisation_witness:
  "\<not> never_pressed 0
   \<and> (\<exists>s'. setup_sketch (boot Map.empty True dry_touch never_pressed True) = Some (Inr s')
         \<and> fullCapacitiveValue s' = 45 \<and> nvs s' capKey = Some 45)
   \<and> (\<exists>s'. setup_sketch (boot calibrated_flash True dry_touch never_pressed True) = Some (Inr s')
         \<and> fullCapacitiveValue s' = 60 \<and> nvs s' capKey = Some 60
         \<and> filter is_store_write (trace s') = [])"
proof -
  have idle: "\<not> never_pressed 0" by (simp add: never_pressed_def)
  have stored: "calibrated_flash capKey = Some (ucast (60 :: 16 word)) \<and> (60 :: 16 word) \<noteq> 0"
    by (simp add: calibrated_flash_def)
  show ?thesis
    using idle stored
      threshold_after_initialisation [where button = never_pressed and flash = Map.empty
        and touch = dry_touch and ledc = True and V = 0, OF idle]
      threshold_after_initialisation [where button = never_pressed and flash = calibrated_flash
        and touch = dry_touch and ledc = True and V = 60, OF idle]
    by auto
qed

subsection \<open>Calibration\<close>

text \<open>
  What a calibration run that returns leaves behind on a flash that opens,
  whatever the flash held before: the counter is 0 in flash and in memory, the
  threshold in flash and in memory is the final smoothed reading plus 1 in the
  16-bit arithmetic of the threshold, which is the number reading plus 1 for
  every reading below 65535. The two writes lie in one scope of the store, one
  directly after the other, and no write to the store follows.
\<close>

lemma calibration_commit_effect:
  assumes "button 0"
    and "setup_sketch (boot flash True touch button ledc) = Some (Inr s')"
  shows "nvs s' pumpKey = Some 0 \<and> totalPumpsSinceCalibration s' = 0
    \<and> nvs s' capKey = Some (ucast (last_reading s' + 1))
    \<and> fullCapacitiveValue s' = last_reading s' + 1
    \<and> (last_reading s' \<noteq> 65535 \<longrightarrow>
          (\<exists>w. nvs s' capKey = Some w \<and> uint w = uint (last_reading s') + 1))
    \<and> (\<exists>pre post. trace s' = pre @ store_scope (last_reading s' + 1) @ post
          \<and> filter is_store_write post = [])
    \<and> touch_in s' = touch \<and> 64 \<le> touch_pos s'"
proof -
  from setup_calibration [OF assms] obtain p s6 where
    closed: "\<not> started (prefs s6)" and avail: "nvs_available s6"
    and touch: "touch_in s6 = touch"
    and s': "s' = setup_done (projr (calibration_commit p s6))"
    by auto
  let ?v = "filtered s6"
  have sel: "nvs s' = (nvs s6)(capKey \<mapsto> ucast (?v + 1), pumpKey \<mapsto> 0)"
    "totalPumpsSinceCalibration s' = 0" "fullCapacitiveValue s' = ?v + 1"
    "touch_pos s' = touch_pos s6 + 64" "touch_in s' = touch_in s6"
    "trace s' = trace s6 @ Delay 2000 # replicate 64 (DelayMicroseconds 50)
        @ commit_events p (?v + 1) True @ blink_events @ [PrefsEnd]"
    using avail unfolding s' by (simp_all add: calibration_commit_eq [OF closed] setup_done_eq)
  have last: "last_reading s' = ?v"
    using sel(4,5) by (rule last_reading_after_commit)
  have stored_thr: "nvs s' capKey = Some (ucast (?v + 1))" and stored_cnt: "nvs s' pumpKey = Some 0"
    by (simp_all add: sel(1))
  have number: "uint (ucast (?v + 1) :: 32 word) = uint ?v + 1" if "?v \<noteq> 65535"
  proof -
    from that have "unat (?v + 1) = unat ?v + 1" by (rule unat_succ_16)
    then have "int (unat (?v + 1)) = int (unat ?v) + 1" by (simp only: of_nat_add of_nat_1)
    then have "uint (?v + 1) = uint ?v + 1" by (simp only: uint_nat [symmetric])
    then show ?thesis by (simp only: uint_ucast_16_32)
  qed
  let ?pre = "trace s6 @ Delay 2000 # replicate 64 (DelayMicroseconds 50)
      @ [SerialPrint (Str ''Updated capacitive from ''), SerialPrint (Num (sint p)),
         SerialPrint (Str '' to ''), SerialPrintln (Num (uint (?v + 1)))]"
  let ?post = "SerialPrintln (Str ''Pump counter reset to 0'') # blink_events @ [PrefsEnd]"
  have "trace s' = ?pre @ store_scope (?v + 1) @ ?post"
    by (simp add: sel(6) commit_events_scope)
  moreover have "filter is_store_write ?post = []" by simp
  ultimately have scope: "\<exists>pre post. trace s' = pre @ store_scope (?v + 1) @ post
      \<and> filter is_store_write post = []"
    by blast
  show ?thesis
    unfolding last
  proof (intro conjI impI)
    show "nvs s' pumpKey = Some 0" by (rule stored_cnt)
    show "totalPumpsSinceCalibration s' = 0" by (rule sel(2))
    show "nvs s' capKey = Some (ucast (?v + 1))" by (rule stored_thr)
    show "fullCapacitiveValue s' = ?v + 1" by (rule sel(3))
    show "\<exists>w. nvs s' capKey = Some w \<and> uint w = uint ?v + 1" if "?v \<noteq> 65535"
      using stored_thr number [OF that] by blast
    show "\<exists>pre post. trace s' = pre @ store_scope (?v + 1) @ post
      \<and> filter is_store_write post = []" by (rule scope)
    show "touch_in s' = touch" by (simp only: sel(5) touch)
    show "64 \<le> touch_pos s'" by (simp add: sel(4))
  qed
qed

text \<open>
  Claim C2 says that, whatever was persisted before, a completed calibration run
  leaves the persisted counter at 0 and the persisted threshold at the final
  smoothed reading plus 1. The code at the reading 65535, on a flash that opens
  and holds the threshold 60 and the counter 12, with the button held so that no
  pump round runs: the final smoothed reading is 65535, the counter stored is 0,
  and the threshold stored is 0, not 65536.
\<close>

theorem calibration_at_saturated_reading_persists_zero:
  "calibration_outcome saturated_recalibration = Some (65535, Some 0, Some 0)"
proof -
  have pressed: "always_pressed 0" by (simp add: always_pressed_def)
  from held_calibration_returns [of used_flash True saturated_touch True] obtain s' where
    ret: "setup_sketch (boot used_flash True saturated_touch always_pressed True) = Some (Inr s')" ..
  note c = calibration_commit_effect [OF pressed ret]
  from c have "touch_in s' = saturated_touch" "64 \<le> touch_pos s'" by simp_all
  then have last: "last_reading s' = 65535"
    by (intro last_reading_const) (simp_all add: saturated_touch_def)
  from c have "nvs s' capKey = Some (ucast (last_reading s' + 1))" "nvs s' pumpKey = Some 0"
    by simp_all
  then have "nvs s' capKey = Some 0" "nvs s' pumpKey = Some 0"
    by (simp_all add: last)
  with last ret show ?thesis
    by (simp add: calibration_outcome_def saturated_recalibration_def)
qed

text \<open>
  Claim C6 says that the threshold in use is above 0 after every operation, also
  after a calibration run, for every final reading. The code at the reading
  65535: when all samples of the final calibration reading are 65535, the
  reading is 65535 and \<open>reading + 1\<close> is cut to the 16-bit threshold 0, so
  \<open>setup\<close> returns with the threshold 0 in use and 0 stored under the threshold
  key. At the next start that 0 is read as "never calibrated" and the default 45
  replaces it.
\<close>

theorem calibration_at_saturated_reading_gives_threshold_zero:
  "threshold_after_setup saturated_start = Some (0, Some 0)
   \<and> threshold_after_setup (boot reboot_flash True saturated_touch never_pressed True)
       = Some (45, Some 45)"
proof -
  let ?s5 = "calibration_entry saturated_start"
  note s5 = calibration_entry_boot
    [where flash = Map.empty and avail = True and touch = saturated_touch
      and button = always_pressed and ledc = True, folded saturated_start_def]
  let ?s6 = "?s5\<lparr>button_pos := Suc (Suc 0)\<rparr>"
  have w: "calibration_wait ?s5 = Some (Inr ?s6)"
    by (subst calibration_wait_unfold) (simp add: s5 always_pressed_def)
  have closed: "\<not> started (prefs ?s6)" by (simp add: s5)
  have f: "filtered ?s6 = 65535"
    by (rule filtered_const) (simp add: s5 saturated_touch_def)
  have pressed: "always_pressed 0" by (simp add: always_pressed_def)
  have "setup_sketch saturated_start =
      Some (Inr (setup_done (projr (calibration_commit
        (fst (load_threshold (load_pump_counter (setup_io saturated_start)))) ?s6))))"
    unfolding saturated_start_def
    by (simp add: setup_pressed [where button = always_pressed, OF pressed]
        w [unfolded saturated_start_def] calibration_commit_eq [OF closed, unfolded saturated_start_def])
  then have one: "threshold_after_setup saturated_start = Some (0, Some 0)"
    by (simp add: threshold_after_setup_def calibration_commit_eq [OF closed] setup_done_eq f s5)
  have idle: "\<not> never_pressed 0" by (simp add: never_pressed_def)
  have two: "threshold_after_setup (boot reboot_flash True saturated_touch never_pressed True)
       = Some (45, Some 45)"
    by (simp only: threshold_after_setup_def
        setup_no_calibration [where button = never_pressed, OF idle])
      (simp add: setup_done_eq digitalRead_def delay_def setup_io_eq load_pump_counter_eq
        load_threshold_eq boot_def stored_def closed_prefs_def emit_def reboot_flash_def)
  from one two show ?thesis by simp
qed

subsection \<open>A store that does not open\<close>

text \<open>
  Claim C9, as stated, fails: on a board whose flash does not open, with no
  calibration, the serial output of \<open>setup\<close> is the four text fragments of an
  ordinary first start and twice the number 0, none of them a warning; and the first call of
  \<open>loop\<close>, reading 50 above the threshold 45, tries to open the store again.
\<close>

theorem store_failure_is_silent_and_reopened_counterexample:
  "serial_output (trace degraded_ready) = degraded_log True
   \<and> filter is_open_attempt (new_events degraded_ready (projr (loop degraded_ready)))
       = [PrefsBegin ns False False]"
proof -
  have idle: "\<not> never_pressed 0" by (simp add: never_pressed_def)
  from degraded_boot [where button = never_pressed, OF idle, of Map.empty dry_touch True]
  obtain s' where s': "setup_sketch degraded_start = Some (Inr s')"
    "fullCapacitiveValue s' = 45" "\<not> started (prefs s')" "\<not> nvs_available s'"
    "overflow_protect s' = 0" "touch_in s' = dry_touch"
    "serial_output (trace s') = degraded_log True"
    unfolding degraded_start_def by blast
  have ready: "degraded_ready = s'" by (simp add: degraded_ready_def s'(1))
  have f: "filtered s' = 50"
    by (rule filtered_const) (simp add: s' dry_touch_def)
  have "filter is_open_attempt (new_events s' (projr (loop s'))) = [PrefsBegin ns False False]"
    by (simp add: new_events_def loop_sel stats_events_def pump_events_def over_threshold_def
        f s')
  with s'(7) show ?thesis unfolding ready by simp
qed

text \<open>
  Claim C9, amended. When the flash does not open, nothing is loaded, nothing is
  persisted and nothing crashes. \<open>setup\<close> without calibration returns with the
  in-memory defaults in use (threshold 45, calibration counter 0) and the flash
  untouched. A calibration run that returns, returns without error, with the
  flash untouched and, in memory only, the threshold at the final smoothed
  reading plus 1 (in 16-bit arithmetic) and the counter at 0. No warning is
  logged at startup: the serial output of \<open>setup\<close> without calibration is
  \<open>degraded_log\<close>, the fragments of a first start with "Stored default value: "
  followed by 0, and the serial output of a calibration run begins with the
  same fragments. The store is not given up for the session: \<open>setup\<close> without
  calibration calls \<open>begin\<close> twice, a calibration run calls \<open>begin\<close> again at
  its commit, with no further attempt after that scope, and every \<open>runPump\<close>
  calls \<open>begin\<close> once; each of these attempts is refused and the flash stays as
  it was. A call of \<open>loop\<close> returns without error and leaves the flash
  untouched; it tries to open the store exactly when it actuates the pump.
\<close>

theorem store_failure_falls_back_to_defaults:
  "(\<not> button 0 \<longrightarrow>
      (\<exists>s'. setup_sketch (boot flash False touch button ledc) = Some (Inr s')
         \<and> fullCapacitiveValue s' = 45 \<and> totalPumpsSinceCalibration s' = 0 \<and> nvs s' = flash
         \<and> \<not> started (prefs s') \<and> \<not> nvs_available s'
         \<and> serial_output (trace s') = degraded_log ledc
         \<and> filter is_open_attempt (trace s')
             = [PrefsBegin ns False False, PrefsBegin ns False False]))
   \<and> (button_b 0 \<and> setup_sketch (boot flash_b False touch_b button_b ledc_b) = Some r \<longrightarrow>
        (\<exists>s'. r = Inr s' \<and> nvs s' = flash_b \<and> \<not> started (prefs s') \<and> \<not> nvs_available s'
           \<and> fullCapacitiveValue s' = last_reading s' + 1
           \<and> totalPumpsSinceCalibration s' = 0
           \<and> touch_in s' = touch_b \<and> 64 \<le> touch_pos s'
           \<and> (\<exists>rest. serial_output (trace s') = degraded_log ledc_b @ rest)
           \<and> (\<exists>pre post. trace s' = pre @ refused_scope (last_reading s' + 1) @ post
                 \<and> filter is_open_attempt post = [])))
   \<and> (\<not> nvs_available u \<and> \<not> started (prefs u) \<longrightarrow>
        nvs (runPump durationMs u) = nvs u
        \<and> \<not> started (prefs (runPump durationMs u)) \<and> \<not> nvs_available (runPump durationMs u)
        \<and> filter is_open_attempt (new_events u (runPump durationMs u))
            = [PrefsBegin ns False False])
   \<and> (\<not> nvs_available s \<and> \<not> started (prefs s) \<longrightarrow>
        (\<exists>s'. loop s = Inr s' \<and> nvs s' = nvs s \<and> \<not> started (prefs s') \<and> \<not> nvs_available s'
           \<and> filter is_open_attempt (new_events s s')
               = (if over_threshold s \<and> \<not> 5 < overflow_protect s
                  then [PrefsBegin ns False False] else [])))"
proof (intro conjI impI)
  assume "\<not> button 0"
  from degraded_boot [where button = button, OF this, of flash touch ledc]
  show "\<exists>s'. setup_sketch (boot flash False touch button ledc) = Some (Inr s')
         \<and> fullCapacitiveValue s' = 45 \<and> totalPumpsSinceCalibration s' = 0 \<and> nvs s' = flash
         \<and> \<not> started (prefs s') \<and> \<not> nvs_available s'
         \<and> serial_output (trace s') = degraded_log ledc
         \<and> filter is_open_attempt (trace s')
             = [PrefsBegin ns False False, PrefsBegin ns False False]"
    by blast
next
  assume a: "button_b 0 \<and> setup_sketch (boot flash_b False touch_b button_b ledc_b) = Some r"
  then have pressed: "button_b 0"
    and ret: "setup_sketch (boot flash_b False touch_b button_b ledc_b) = Some r"
    by simp_all
  let ?s5 = "calibration_entry (boot flash_b False touch_b button_b ledc_b)"
  from setup_calibration [OF pressed ret] obtain p s6 es where
    closed: "\<not> started (prefs s6)" and off: "\<not> nvs_available s6" and same: "nvs s6 = flash_b"
    and touch: "touch_in s6 = touch_b"
    and grown: "trace s6 = trace ?s5 @ es"
    and r: "r = Inr (setup_done (projr (calibration_commit p s6)))"
    by auto
  let ?s' = "setup_done (projr (calibration_commit p s6))"
  let ?v = "filtered s6"
  have sel: "nvs ?s' = flash_b" "\<not> started (prefs ?s')" "\<not> nvs_available ?s'"
    "fullCapacitiveValue ?s' = ?v + 1" "totalPumpsSinceCalibration ?s' = 0"
    "touch_pos ?s' = touch_pos s6 + 64" "touch_in ?s' = touch_in s6"
    "trace ?s' = trace s6 @ Delay 2000 # replicate 64 (DelayMicroseconds 50)
        @ commit_events p (?v + 1) False @ blink_events @ [PrefsEnd]"
    using off same by (simp_all add: calibration_commit_eq [OF closed] setup_done_eq)
  have last: "last_reading ?s' = ?v"
    using sel(6,7) by (rule last_reading_after_commit)
  from degraded_entry_log obtain rest0 where
    "serial_output (trace ?s5) = degraded_log ledc_b @ rest0" ..
  then have "serial_output (trace ?s') = degraded_log ledc_b @ (rest0 @ serial_output es
      @ serial_output (commit_events p (?v + 1) False))"
    by (simp add: sel(8) grown)
  then have log: "\<exists>rest. serial_output (trace ?s') = degraded_log ledc_b @ rest" ..
  let ?pre = "trace s6 @ Delay 2000 # replicate 64 (DelayMicroseconds 50)
      @ [SerialPrint (Str ''Updated capacitive from ''), SerialPrint (Num (sint p)),
         SerialPrint (Str '' to ''), SerialPrintln (Num (uint (?v + 1)))]"
  let ?post = "SerialPrintln (Str ''Pump counter reset to 0'') # blink_events @ [PrefsEnd]"
  have "trace ?s' = ?pre @ refused_scope (?v + 1) @ ?post"
    by (simp add: sel(8) commit_events_def refused_scope_def)
  moreover have "filter is_open_attempt ?post = []" by simp
  ultimately have scope: "\<exists>pre post. trace ?s' = pre @ refused_scope (?v + 1) @ post
      \<and> filter is_open_attempt post = []"
    by blast
  have "nvs ?s' = flash_b \<and> \<not> started (prefs ?s') \<and> \<not> nvs_available ?s'
      \<and> fullCapacitiveValue ?s' = last_reading ?s' + 1
      \<and> totalPumpsSinceCalibration ?s' = 0
      \<and> touch_in ?s' = touch_b \<and> 64 \<le> touch_pos ?s'
      \<and> (\<exists>rest. serial_output (trace ?s') = degraded_log ledc_b @ rest)
      \<and> (\<exists>pre post. trace ?s' = pre @ refused_scope (last_reading ?s' + 1) @ post
            \<and> filter is_open_attempt post = [])"
    unfolding last
  proof (intro conjI)
    show "nvs ?s' = flash_b" by (rule sel(1))
    show "\<not> started (prefs ?s')" by (rule sel(2))
    show "\<not> nvs_available ?s'" by (rule sel(3))
    show "fullCapacitiveValue ?s' = ?v + 1" by (rule sel(4))
    show "totalPumpsSinceCalibration ?s' = 0" by (rule sel(5))
    show "touch_in ?s' = touch_b" by (simp only: sel(7) touch)
    show "64 \<le> touch_pos ?s'" by (simp add: sel(6))
    show "\<exists>rest. serial_output (trace ?s') = degraded_log ledc_b @ rest" by (rule log)
    show "\<exists>pre post. trace ?s' = pre @ refused_scope (?v + 1) @ post
      \<and> filter is_open_attempt post = []" by (rule scope)
  qed
  with r show "\<exists>s'. r = Inr s' \<and> nvs s' = flash_b \<and> \<not> started (prefs s') \<and> \<not> nvs_available s'
           \<and> fullCapacitiveValue s' = last_reading s' + 1
           \<and> totalPumpsSinceCalibration s' = 0
           \<and> touch_in s' = touch_b \<and> 64 \<le> touch_pos s'
           \<and> (\<exists>rest. serial_output (trace s') = degraded_log ledc_b @ rest)
           \<and> (\<exists>pre post. trace s' = pre @ refused_scope (last_reading s' + 1) @ post
                 \<and> filter is_open_attempt post = [])"
    by blast
next
  assume a: "\<not> nvs_available u \<and> \<not> started (prefs u)"
  then have w: "\<not> writable u" by (simp add: writable_def)
  from w show "nvs (runPump durationMs u) = nvs u" by simp
  show "\<not> started (prefs (runPump durationMs u))" by simp
  from a show "\<not> nvs_available (runPump durationMs u)" by simp
  from a show "filter is_open_attempt (new_events u (runPump durationMs u))
      = [PrefsBegin ns False False]"
    by (simp add: new_events_def)
next
  assume a: "\<not> nvs_available s \<and> \<not> started (prefs s)"
  then have "nvs (projr (loop s)) = nvs s" "\<not> started (prefs (projr (loop s)))"
    "\<not> nvs_available (projr (loop s))"
    "filter is_open_attempt (new_events s (projr (loop s)))
       = (if over_threshold s \<and> \<not> 5 < overflow_protect s then [PrefsBegin ns False False] else [])"
    by (simp_all add: loop_store loop_sel writable_def new_events_def stats_events_def
        pump_events_def)
  then show "\<exists>s'. loop s = Inr s' \<and> nvs s' = nvs s \<and> \<not> started (prefs s') \<and> \<not> nvs_available s'
           \<and> filter is_open_attempt (new_events s s')
               = (if over_threshold s \<and> \<not> 5 < overflow_protect s
                  then [PrefsBegin ns False False] else [])"
    using loop_Inr [of s] by blast
qed

theorem store_failure_falls_back_to_defaults_witness:
  "\<not> never_pressed 0
   \<and> (\<exists>s'. setup_sketch degraded_start = Some (Inr s')
         \<and> fullCapacitiveValue s' = 45 \<and> totalPumpsSinceCalibration s' = 0 \<and> nvs s' = Map.empty
         \<and> serial_output (trace s') = degraded_log True)
   \<and> calib_button 0
   \<and> (\<exists>s'. setup_sketch (boot used_flash False dry_touch calib_button True) = Some (Inr s')
         \<and> nvs s' = used_flash \<and> last_reading s' = 50 \<and> fullCapacitiveValue s' = 51
         \<and> totalPumpsSinceCalibration s' = 0
         \<and> (\<exists>pre post. trace s' = pre @ refused_scope 51 @ post))
   \<and> \<not> nvs_available degraded_start \<and> \<not> started (prefs degraded_start)
   \<and> nvs (runPump 1000 degraded_start) = nvs degraded_start
   \<and> filter is_open_attempt (new_events degraded_start (runPump 1000 degraded_start))
       = [PrefsBegin ns False False]
   \<and> (\<exists>s'. loop degraded_start = Inr s' \<and> nvs s' = nvs degraded_start
         \<and> filter is_open_attempt (new_events degraded_start s') = [PrefsBegin ns False False])"
proof -
  have idle: "\<not> never_pressed 0" by (simp add: never_pressed_def)
  have pressed: "calib_button 0" by (simp add: calib_button_def)
  from calibration_run_returns [of used_flash False] obtain s2 where
    ret: "setup_sketch (boot used_flash False dry_touch calib_button True) = Some (Inr s2)" ..
  have off: "\<not> nvs_available degraded_start" "\<not> started (prefs degraded_start)"
    "overflow_protect degraded_start = 0" "fullCapacitiveValue degraded_start = 45"
    by (simp_all add: degraded_start_def boot_def)
  have f: "filtered degraded_start = 50"
    by (rule filtered_const) (simp add: degraded_start_def boot_def dry_touch_def)
  have over: "over_threshold degraded_start \<and> \<not> 5 < overflow_protect degraded_start"
    by (simp add: over_threshold_def f off)
  note c = store_failure_falls_back_to_defaults
      [where button = never_pressed and flash = Map.empty and touch = dry_touch and ledc = True
        and button_b = calib_button and flash_b = used_flash and touch_b = dry_touch
        and ledc_b = True and r = "Inr s2" and s = degraded_start and u = degraded_start
        and durationMs = 1000]
  from c pressed ret have run: "nvs s2 = used_flash"
    "fullCapacitiveValue s2 = last_reading s2 + 1" "totalPumpsSinceCalibration s2 = 0"
    "touch_in s2 = dry_touch" "64 \<le> touch_pos s2"
    "\<exists>pre post. trace s2 = pre @ refused_scope (last_reading s2 + 1) @ post"
    by auto
  from run(4,5) have last: "last_reading s2 = 50"
    by (intro last_reading_const) (simp_all add: dry_touch_def)
  from run last ret have two: "\<exists>s'. setup_sketch (boot used_flash False dry_touch calib_button True)
         = Some (Inr s')
         \<and> nvs s' = used_flash \<and> last_reading s' = 50 \<and> fullCapacitiveValue s' = 51
         \<and> totalPumpsSinceCalibration s' = 0
         \<and> (\<exists>pre post. trace s' = pre @ refused_scope 51 @ post)"
    by auto
  from c idle have one: "\<exists>s'. setup_sketch degraded_start = Some (Inr s')
         \<and> fullCapacitiveValue s' = 45 \<and> totalPumpsSinceCalibration s' = 0 \<and> nvs s' = Map.empty
         \<and> serial_output (trace s') = degraded_log True"
    unfolding degraded_start_def [symmetric] by auto
  from c off over have three: "nvs (runPump 1000 degraded_start) = nvs degraded_start"
    "filter is_open_attempt (new_events degraded_start (runPump 1000 degraded_start))
       = [PrefsBegin ns False False]"
    "\<exists>s'. loop degraded_start = Inr s' \<and> nvs s' = nvs degraded_start
         \<and> filter is_open_attempt (new_events degraded_start s') = [PrefsBegin ns False False]"
    by auto
  from idle pressed one two off(1,2) three show ?thesis by simp
qed

end
